theory Spec2Isabelle
  imports Main "HOL-Library.Multiset" "HOL-Library.Word" "HOL-Library.Log_Nat"
    "HOL-Library.Product_Lexorder"
begin

section \<open>JavaScript numbers\<close>

text \<open>
  A JavaScript number is an IEEE 754 double: \<open>NaN\<close>, the two infinities, the two zeros
  and the finite values. Every finite double is a whole multiple of the least positive
  one, \<open>2\<^sup>-\<^sup>1\<^sup>0\<^sup>7\<^sup>4\<close>, and \<open>Fin k\<close> is \<open>k\<close> such units; \<open>Fin 0\<close> is \<open>+0\<close> and \<open>NegZero\<close> is
  \<open>-0\<close>. The type is a little wider than the doubles (a \<open>k\<close> of more than 53 significant
  bits is none); the operations below agree with the language on the doubles.
\<close>

datatype jsnum = NaN | NegInfinity | Fin int | NegZero | PosInfinity

definition denorm_exp :: nat where
  "denorm_exp = 1074"

text \<open>The double of an integer \<open>n\<close>, which is exact for \<open>\<bar>n\<bar> \<le> 2\<^sup>5\<^sup>3\<close>.\<close>

definition js_int :: "int \<Rightarrow> jsnum" where
  "js_int n = Fin (n * 2 ^ denorm_exp)"

text \<open>The position of a number that is not \<open>NaN\<close> on the extended line; the zeros share
  one.\<close>

fun js_key :: "jsnum \<Rightarrow> int \<times> int" where
  "js_key NegInfinity = (- 1, 0)"
| "js_key (Fin k) = (0, k)"
| "js_key NegZero = (0, 0)"
| "js_key PosInfinity = (1, 0)"
| "js_key NaN = (0, 0)"

text \<open>\<open>a < b\<close>, \<open>a <= b\<close> and \<open>a === b\<close> on numbers: false when an operand is \<open>NaN\<close>.\<close>

definition js_lt :: "jsnum \<Rightarrow> jsnum \<Rightarrow> bool" where
  "js_lt a b \<longleftrightarrow> a \<noteq> NaN \<and> b \<noteq> NaN \<and> js_key a < js_key b"

definition js_le :: "jsnum \<Rightarrow> jsnum \<Rightarrow> bool" where
  "js_le a b \<longleftrightarrow> a \<noteq> NaN \<and> b \<noteq> NaN \<and> js_key a \<le> js_key b"

definition js_eq :: "jsnum \<Rightarrow> jsnum \<Rightarrow> bool" where
  "js_eq a b \<longleftrightarrow> a \<noteq> NaN \<and> b \<noteq> NaN \<and> js_key a = js_key b"

fun js_finite :: "jsnum \<Rightarrow> bool" where
  "js_finite (Fin k) = True"
| "js_finite NegZero = True"
| "js_finite _ = False"

fun quanta :: "jsnum \<Rightarrow> int" where
  "quanta (Fin k) = k"
| "quanta _ = 0"

text \<open>
  Rounding to the nearest double, ties to even, of a magnitude of \<open>n\<close> units: up to 53
  bits are kept. At or beyond \<open>2\<^sup>1\<^sup>0\<^sup>2\<^sup>4\<close> the result is an infinity.
\<close>

definition round_mag :: "nat \<Rightarrow> nat" where
  "round_mag n =
     (if n < 2 ^ 53 then n
      else
        let s = floorlog 2 n - 53;
            q = n div 2 ^ s;
            r = n mod 2 ^ s
        in (if 2 ^ s < 2 * r \<or> (2 * r = 2 ^ s \<and> odd q) then q + 1 else q) * 2 ^ s)"

definition round_double :: "int \<Rightarrow> jsnum" where
  "round_double d =
     (let m = round_mag (nat \<bar>d\<bar>)
      in if 2 ^ (1024 + denorm_exp) \<le> m then (if d < 0 then NegInfinity else PosInfinity)
         else Fin (if d < 0 then - int m else int m))"

text \<open>\<open>a - b\<close>: the exact difference, rounded. A difference of zero is \<open>+0\<close>, but for
  \<open>-0 - +0\<close>.\<close>

definition js_sub :: "jsnum \<Rightarrow> jsnum \<Rightarrow> jsnum" where
  "js_sub a b =
     (if a = NaN \<or> b = NaN then NaN
      else if a = PosInfinity then (if b = PosInfinity then NaN else PosInfinity)
      else if a = NegInfinity then (if b = NegInfinity then NaN else NegInfinity)
      else if b = PosInfinity then NegInfinity
      else if b = NegInfinity then PosInfinity
      else if quanta a = quanta b then (if a = NegZero \<and> b = Fin 0 then NegZero else Fin 0)
      else round_double (quanta a - quanta b))"

section \<open>JavaScript values\<close>

text \<open>
  The primitive values a property can hold. A property that is absent reads as
  \<open>JUndefined\<close>. Strings are lists of code units in the Latin-1 range.
\<close>

datatype jsval = JUndefined | JNull | JBool bool | JNum jsnum | JStr string

text \<open>The errors the handlers can meet: a \<open>TypeError\<close> of the language and a failure of
  the storage backend.\<close>

datatype error = TypeError | StorageError

text \<open>\<open>!v\<close> is \<open>\<not> truthy v\<close>.\<close>

fun truthy :: "jsval \<Rightarrow> bool" where
  "truthy JUndefined = False"
| "truthy JNull = False"
| "truthy (JBool b) = b"
| "truthy (JNum n) = (n \<noteq> Fin 0 \<and> n \<noteq> NegZero \<and> n \<noteq> NaN)"
| "truthy (JStr s) = (s \<noteq> [])"

text \<open>\<open>a || b\<close>\<close>

definition js_or :: "jsval \<Rightarrow> jsval \<Rightarrow> jsval" where
  "js_or a b = (if truthy a then a else b)"

section \<open>Face detection: \<open>app.post("/detectFaces")\<close>, the \<open>faces\<close> pipeline\<close>

text \<open>
  A vertex of the provider: an object whose \<open>x\<close> and \<open>y\<close> properties may hold anything.
  The record fields carry a prefix, since \<open>x\<close> and \<open>y\<close> are wanted as variable names.
\<close>

record vertex =
  vertex_x :: jsval
  vertex_y :: jsval

text \<open>
  \<open>boundingPoly.vertices\<close>: \<open>None\<close> is an absent (undefined or null) property. An element
  of the array is \<open>None\<close> when it is \<open>null\<close> or \<open>undefined\<close> instead of an object.
\<close>

record poly =
  vertices :: "vertex option list option"

record face =
  boundingPoly :: "poly option"

text \<open>The rectangle \<open>{ x, y, w, h }\<close> of the response.\<close>

record rect =
  rect_x :: jsnum
  rect_y :: jsnum
  rect_w :: jsnum
  rect_h :: jsnum

text \<open>\<open>const verts = face.boundingPoly?.vertices || [];\<close>\<close>

definition verts_of :: "face \<Rightarrow> vertex option list" where
  "verts_of f =
     (case boundingPoly f of
        None \<Rightarrow> []
      | Some p \<Rightarrow> (case vertices p of None \<Rightarrow> [] | Some vs \<Rightarrow> vs))"

text \<open>\<open>if (typeof c === "number") xs.push(c);\<close> Every number has that type, \<open>NaN\<close> and
  the infinities too.\<close>

definition push_if_number :: "jsval \<Rightarrow> jsnum list \<Rightarrow> jsnum list" where
  "push_if_number c xs = (case c of JNum n \<Rightarrow> xs @ [n] | _ \<Rightarrow> xs)"

text \<open>
  \<open>verts.forEach((v) => { ... })\<close> over the arrays \<open>xs\<close> and \<open>ys\<close>. Reading \<open>v.x\<close> of an
  element that is \<open>null\<close> or \<open>undefined\<close> raises a \<open>TypeError\<close>.
\<close>

fun forEach_push ::
  "vertex option list \<Rightarrow> jsnum list \<Rightarrow> jsnum list \<Rightarrow> error + (jsnum list \<times> jsnum list)" where
  "forEach_push [] xs ys = Inr (xs, ys)"
| "forEach_push (None # vs) xs ys = Inl TypeError"
| "forEach_push (Some v # vs) xs ys =
     forEach_push vs (push_if_number (vertex_x v) xs) (push_if_number (vertex_y v) ys)"

text \<open>
  \<open>Math.min(...xs)\<close> and \<open>Math.max(...xs)\<close>, as the language defines them: the arguments
  are read in order from \<open>Infinity\<close> (from \<open>-Infinity\<close>); a \<open>NaN\<close> among them makes the
  result \<open>NaN\<close>; \<open>-0\<close> counts as less than \<open>+0\<close>.
\<close>

definition min_step :: "jsnum \<Rightarrow> jsnum \<Rightarrow> jsnum" where
  "min_step number lowest =
     (if lowest = NaN \<or> number = NaN then NaN
      else if number = NegZero \<and> lowest = Fin 0 then NegZero
      else if js_lt number lowest then number
      else lowest)"

definition math_min :: "jsnum list \<Rightarrow> jsnum" where
  "math_min xs = fold min_step xs PosInfinity"

definition max_step :: "jsnum \<Rightarrow> jsnum \<Rightarrow> jsnum" where
  "max_step number highest =
     (if highest = NaN \<or> number = NaN then NaN
      else if number = Fin 0 \<and> highest = NegZero then Fin 0
      else if js_lt highest number then number
      else highest)"

definition math_max :: "jsnum list \<Rightarrow> jsnum" where
  "math_max xs = fold max_step xs NegInfinity"

text \<open>The arrow function given to \<open>annotations.map\<close>: \<open>Inr None\<close> is \<open>return null\<close>.
  An annotation that is itself \<open>null\<close> or \<open>undefined\<close> raises at \<open>face.boundingPoly\<close>.\<close>

fun face_rect :: "face option \<Rightarrow> error + rect option" where
  "face_rect None = Inl TypeError"
| "face_rect (Some f) =
     (case forEach_push (verts_of f) [] [] of
        Inl e \<Rightarrow> Inl e
      | Inr (xs, ys) \<Rightarrow>
          if length xs = 0 \<or> length ys = 0 then Inr None
          else
            let minX = math_min xs;
                maxX = math_max xs;
                minY = math_min ys;
                maxY = math_max ys
            in Inr (Some \<lparr>rect_x = minX, rect_y = minY,
                           rect_w = js_sub maxX minX, rect_h = js_sub maxY minY\<rparr>))"

text \<open>\<open>annotations.map(...)\<close>: the callback runs on the elements in order and the first
  error ends the call.\<close>

fun map_faces :: "face option list \<Rightarrow> error + rect option list" where
  "map_faces [] = Inr []"
| "map_faces (a # as) =
     (case face_rect a of
        Inl e \<Rightarrow> Inl e
      | Inr r \<Rightarrow> (case map_faces as of Inl e \<Rightarrow> Inl e | Inr rs \<Rightarrow> Inr (r # rs)))"

text \<open>\<open>.filter(Boolean)\<close>: an object is truthy, \<open>null\<close> is not.\<close>

fun filter_Boolean :: "'a option list \<Rightarrow> 'a list" where
  "filter_Boolean [] = []"
| "filter_Boolean (None # rs) = filter_Boolean rs"
| "filter_Boolean (Some r # rs) = r # filter_Boolean rs"

text \<open>The comparator \<open>(a, b) => a.x - b.x\<close>. Its value is \<open>NaN\<close> when an \<open>x\<close> is \<open>NaN\<close>,
  and when both are the same infinity.\<close>

definition cmp_x :: "rect \<Rightarrow> rect \<Rightarrow> jsnum" where
  "cmp_x a b = js_sub (rect_x a) (rect_x b)"

text \<open>What \<open>sort\<close> makes of the comparator's value: its sign, and \<open>+0\<close> for \<open>NaN\<close>.\<close>

definition sort_sign :: "jsnum \<Rightarrow> int" where
  "sort_sign v = (if js_lt v (Fin 0) then - 1 else if js_lt (Fin 0) v then 1 else 0)"

text \<open>
  \<open>Array.prototype.sort(cmp)\<close>. The source uses optional chaining, so it runs on an engine
  of ECMAScript 2020 or later, where the sort is stable. The model is a stable insertion
  sort driven by the sign of the comparator. Where the comparator is consistent, the
  language fixes the result (\<open>sort_contract\<close> below), and this is it; where it is not, the
  order is the engine's own, and \<open>array_sort\<close> stands for one engine.
\<close>

fun insert_cmp :: "('a \<Rightarrow> 'a \<Rightarrow> jsnum) \<Rightarrow> 'a \<Rightarrow> 'a list \<Rightarrow> 'a list" where
  "insert_cmp cmp a [] = [a]"
| "insert_cmp cmp a (b # bs) =
     (if sort_sign (cmp a b) \<le> 0 then a # b # bs else b # insert_cmp cmp a bs)"

definition array_sort :: "('a \<Rightarrow> 'a \<Rightarrow> jsnum) \<Rightarrow> 'a list \<Rightarrow> 'a list" where
  "array_sort cmp as = foldr (insert_cmp cmp) as []"

text \<open>\<open>const faces = annotations.map(...).filter(Boolean).sort((a, b) => a.x - b.x);\<close>\<close>

definition faces :: "face option list \<Rightarrow> error + rect list" where
  "faces annotations =
     (case map_faces annotations of
        Inl e \<Rightarrow> Inl e
      | Inr rs \<Rightarrow> Inr (array_sort cmp_x (filter_Boolean rs)))"

text \<open>
  The words of the specification. The x-set and the y-set of a vertex list hold the
  coordinates that are present and numeric; an annotation is degenerate when one of the
  two is empty; the agreed shape of the input has an object at every annotation and at
  every vertex.
\<close>

definition numeric_xs :: "vertex option list \<Rightarrow> jsnum list" where
  "numeric_xs vs =
     concat (map (\<lambda>v. case v of None \<Rightarrow> [] | Some u \<Rightarrow> push_if_number (vertex_x u) []) vs)"

definition numeric_ys :: "vertex option list \<Rightarrow> jsnum list" where
  "numeric_ys vs =
     concat (map (\<lambda>v. case v of None \<Rightarrow> [] | Some u \<Rightarrow> push_if_number (vertex_y u) []) vs)"

definition degenerate :: "face \<Rightarrow> bool" where
  "degenerate f \<longleftrightarrow> numeric_xs (verts_of f) = [] \<or> numeric_ys (verts_of f) = []"

definition agreed_shape :: "face option list \<Rightarrow> bool" where
  "agreed_shape annotations \<longleftrightarrow>
     list_all (\<lambda>a. case a of None \<Rightarrow> False | Some f \<Rightarrow> None \<notin> set (verts_of f)) annotations"

text \<open>The annotations that survive, in the order of the input.\<close>

definition survivors :: "face option list \<Rightarrow> face list" where
  "survivors annotations = filter (\<lambda>f. \<not> degenerate f) (filter_Boolean annotations)"

text \<open>The rectangle of an annotation: \<open>Math.min\<close>, \<open>Math.max\<close> and the subtraction of the
  language on its x-set and y-set.\<close>

definition bounding_rect :: "face \<Rightarrow> rect" where
  "bounding_rect f =
     \<lparr>rect_x = math_min (numeric_xs (verts_of f)),
      rect_y = math_min (numeric_ys (verts_of f)),
      rect_w = js_sub (math_max (numeric_xs (verts_of f))) (math_min (numeric_xs (verts_of f))),
      rect_h = js_sub (math_max (numeric_ys (verts_of f))) (math_min (numeric_ys (verts_of f)))\<rparr>"

text \<open>A minimum and a maximum of a list of numbers, by \<open><=\<close>.\<close>

definition is_minimum :: "jsnum \<Rightarrow> jsnum list \<Rightarrow> bool" where
  "is_minimum m xs \<longleftrightarrow> m \<in> set xs \<and> list_all (\<lambda>x. js_le m x) xs"

definition is_maximum :: "jsnum \<Rightarrow> jsnum list \<Rightarrow> bool" where
  "is_maximum m xs \<longleftrightarrow> m \<in> set xs \<and> list_all (\<lambda>x. js_le x m) xs"

text \<open>A list of rectangles in non-decreasing order of \<open>x\<close>.\<close>

definition sorted_by_x :: "rect list \<Rightarrow> bool" where
  "sorted_by_x rs \<longleftrightarrow> sorted_wrt (\<lambda>a b. js_le (rect_x a) (rect_x b)) rs"

text \<open>The position of the \<open>x\<close> of a rectangle: where no \<open>x\<close> is \<open>NaN\<close>, the comparator
  orders by it.\<close>

definition x_key :: "rect \<Rightarrow> int \<times> int" where
  "x_key r = js_key (rect_x r)"

text \<open>
  A comparator is consistent on a list when its signs order the elements: every
  element equals itself, \<open>cmp b a\<close> has the sign opposite to \<open>cmp a b\<close>, and the order
  is transitive.
\<close>

definition consistent :: "('a \<Rightarrow> 'a \<Rightarrow> jsnum) \<Rightarrow> 'a list \<Rightarrow> bool" where
  "consistent cmp as \<longleftrightarrow>
     (\<forall>a \<in> set as. \<forall>b \<in> set as. \<forall>c \<in> set as.
        sort_sign (cmp a a) = 0 \<and>
        sort_sign (cmp b a) = - sort_sign (cmp a b) \<and>
        (sort_sign (cmp a b) \<le> 0 \<and> sort_sign (cmp b c) \<le> 0 \<longrightarrow> sort_sign (cmp a c) \<le> 0))"

text \<open>
  What ECMAScript promises of \<open>sort\<close> with a consistent comparator, on any engine: the
  result is a permutation, it is ordered by the comparator, and elements that compare
  equal keep their order.
\<close>

definition sort_contract :: "('a \<Rightarrow> 'a \<Rightarrow> jsnum) \<Rightarrow> 'a list \<Rightarrow> 'a list \<Rightarrow> bool" where
  "sort_contract cmp as bs \<longleftrightarrow>
     mset bs = mset as \<and>
     sorted_wrt (\<lambda>a b. sort_sign (cmp a b) \<le> 0) bs \<and>
     (\<forall>a \<in> set as. filter (\<lambda>b. sort_sign (cmp a b) = 0) bs =
                    filter (\<lambda>b. sort_sign (cmp a b) = 0) as)"

text \<open>
  A run of the pipeline on an engine whose \<open>sort\<close> is \<open>srt\<close>: the callback's results,
  dropped of \<open>null\<close>, in an order that meets the contract of \<open>sort\<close> where the comparator
  is consistent, and in the engine's own order where it is not.
\<close>

definition faces_run ::
  "((rect \<Rightarrow> rect \<Rightarrow> jsnum) \<Rightarrow> rect list \<Rightarrow> rect list) \<Rightarrow> face option list \<Rightarrow> error + rect list \<Rightarrow> bool" where
  "faces_run srt annotations out =
     (case map_faces annotations of
        Inl e \<Rightarrow> out = Inl e
      | Inr ms \<Rightarrow>
          (case out of
             Inl e \<Rightarrow> False
           | Inr rs \<Rightarrow>
               if consistent cmp_x (filter_Boolean ms)
               then sort_contract cmp_x (filter_Boolean ms) rs
               else rs = srt cmp_x (filter_Boolean ms)))"

section \<open>Storage relay: \<open>/uploadPdfDirect\<close> and the download endpoints\<close>

text \<open>The bucket \<open>xcape-menu-bucket\<close>: object names to contents.\<close>

type_synonym bytes = "8 word list"

type_synonym store = "string \<Rightarrow> bytes option"

definition MENU_OBJECT :: string where
  "MENU_OBJECT = ''menu_current.pdf''"

definition BOARDPASS_OBJECT :: string where
  "BOARDPASS_OBJECT = ''boardpass_current.pdf''"

definition LEGACY_BOARDING_OBJECT :: string where
  "LEGACY_BOARDING_OBJECT = ''boarding_current.pdf''"

text \<open>\<open>new Set([...])\<close>, in insertion order, which is the order of \<open>Array.from\<close>.\<close>

definition ALLOWED_OBJECTS :: "string list" where
  "ALLOWED_OBJECTS = [MENU_OBJECT, BOARDPASS_OBJECT, LEGACY_BOARDING_OBJECT]"

text \<open>The properties of \<open>req.body\<close> that the handler reads.\<close>

record upload_body =
  body_pdfBase64 :: jsval
  body_objectName :: jsval

datatype json =
    ErrorJson string
  | InvalidObjectName string "string list"
  | UploadOk bool string

text \<open>\<open>res.status(n).json(...)\<close>, \<open>res.status(n).send(bytes)\<close> after the two \<open>setHeader\<close>
  calls, and \<open>res.status(n).send(text)\<close>.\<close>

datatype response =
    Json nat json
  | Send nat "(string \<times> string) list" bytes
  | SendText nat string

text \<open>\<open>String.prototype.trim\<close>: white space and line terminators, in the Latin-1 range
  TAB, LF, VT, FF, CR, SP and NBSP.\<close>

definition is_ws :: "char \<Rightarrow> bool" where
  "is_ws c \<longleftrightarrow> c \<in> set [CHR 0x09, CHR 0x0A, CHR 0x0B, CHR 0x0C, CHR 0x0D, CHR 0x20, CHR 0xA0]"

definition trim :: "string \<Rightarrow> string" where
  "trim s = rev (dropWhile is_ws (rev (dropWhile is_ws s)))"

text \<open>\<open>v.trim()\<close>: only a string has the method; on a number or a boolean the call raises,
  as does the property read on \<open>undefined\<close> and \<open>null\<close>.\<close>

definition js_trim :: "jsval \<Rightarrow> error + string" where
  "js_trim v = (case v of JStr s \<Rightarrow> Inr (trim s) | _ \<Rightarrow> Inl TypeError)"

text \<open>\<open>Buffer.from(v, "base64")\<close>. The decoder is Node's and is a parameter here; it takes
  every string. A number or a boolean raises a \<open>TypeError\<close>.\<close>

definition Buffer_from :: "(string \<Rightarrow> bytes) \<Rightarrow> jsval \<Rightarrow> error + bytes" where
  "Buffer_from decode v = (case v of JStr s \<Rightarrow> Inr (decode s) | _ \<Rightarrow> Inl TypeError)"

text \<open>\<open>file.save\<close> and \<open>file.download\<close> of the storage client. Whether the backend serves
  the call is a parameter; a download of a missing object fails as well.\<close>

definition save :: "bool \<Rightarrow> store \<Rightarrow> string \<Rightarrow> bytes \<Rightarrow> error + store" where
  "save ok st name buf = (if ok then Inr (st(name \<mapsto> buf)) else Inl StorageError)"

definition download :: "bool \<Rightarrow> store \<Rightarrow> string \<Rightarrow> error + bytes" where
  "download ok st name =
     (if ok then (case st name of None \<Rightarrow> Inl StorageError | Some b \<Rightarrow> Inr b)
      else Inl StorageError)"

text \<open>\<open>(req.body?.objectName || MENU_OBJECT).trim()\<close>\<close>

definition objectName_of :: "upload_body option \<Rightarrow> error + string" where
  "objectName_of body =
     js_trim (js_or (case body of None \<Rightarrow> JUndefined | Some b \<Rightarrow> body_objectName b)
                    (JStr MENU_OBJECT))"

text \<open>The \<open>try\<close> block of \<open>app.post("/uploadPdfDirect")\<close>: the response and the store.\<close>

definition uploadPdfDirect_try ::
  "(string \<Rightarrow> bytes) \<Rightarrow> bool \<Rightarrow> store \<Rightarrow> upload_body option \<Rightarrow> error + (response \<times> store)" where
  "uploadPdfDirect_try decode save_ok st body =
     (let pdfBase64 = (case body of None \<Rightarrow> JUndefined | Some b \<Rightarrow> body_pdfBase64 b)
      in
        if \<not> truthy pdfBase64 then Inr (Json 400 (ErrorJson ''No pdfBase64 provided''), st)
        else
          case objectName_of body of
            Inl e \<Rightarrow> Inl e
          | Inr name \<Rightarrow>
              if name \<notin> set ALLOWED_OBJECTS
              then Inr (Json 400 (InvalidObjectName ''Invalid objectName'' ALLOWED_OBJECTS), st)
              else
                (case Buffer_from decode pdfBase64 of
                   Inl e \<Rightarrow> Inl e
                 | Inr pdfBuffer \<Rightarrow>
                     (case save save_ok st name pdfBuffer of
                        Inl e \<Rightarrow> Inl e
                      | Inr st' \<Rightarrow> Inr (Json 200 (UploadOk True name), st'))))"

text \<open>The handler with its \<open>catch\<close>.\<close>

definition uploadPdfDirect ::
  "(string \<Rightarrow> bytes) \<Rightarrow> bool \<Rightarrow> store \<Rightarrow> upload_body option \<Rightarrow> response \<times> store" where
  "uploadPdfDirect decode save_ok st body =
     (case uploadPdfDirect_try decode save_ok st body of
        Inl e \<Rightarrow> (Json 500 (ErrorJson ''upload failed''), st)
      | Inr r \<Rightarrow> r)"

definition pdf_headers :: "(string \<times> string) list" where
  "pdf_headers = [(''Content-Type'', ''application/pdf''), (''Cache-Control'', ''no-store'')]"

text \<open>\<open>app.get("/menu_current")\<close>, \<open>app.get("/boardpass_current")\<close> and
  \<open>app.get("/boarding_current")\<close>.\<close>

definition menu_current :: "bool \<Rightarrow> store \<Rightarrow> response" where
  "menu_current ok st =
     (case download ok st MENU_OBJECT of
        Inl e \<Rightarrow> SendText 500 ''menu not available''
      | Inr bytes \<Rightarrow> Send 200 pdf_headers bytes)"

definition boardpass_current :: "bool \<Rightarrow> store \<Rightarrow> response" where
  "boardpass_current ok st =
     (case download ok st BOARDPASS_OBJECT of
        Inl e \<Rightarrow> SendText 500 ''boardpass not available''
      | Inr bytes \<Rightarrow> Send 200 pdf_headers bytes)"

definition boarding_current :: "bool \<Rightarrow> store \<Rightarrow> response" where
  "boarding_current ok st =
     (case download ok st BOARDPASS_OBJECT of
        Inl e \<Rightarrow> SendText 500 ''boarding pass not available''
      | Inr bytes \<Rightarrow> Send 200 pdf_headers bytes)"

text \<open>The endpoints that read the bucket.\<close>

datatype download_route = Menu_current | Boardpass_current | Boarding_current

fun app_get :: "download_route \<Rightarrow> bool \<Rightarrow> store \<Rightarrow> response" where
  "app_get Menu_current ok st = menu_current ok st"
| "app_get Boardpass_current ok st = boardpass_current ok st"
| "app_get Boarding_current ok st = boarding_current ok st"

section \<open>Example inputs\<close>

text \<open>A coordinate that is a whole number of pixels; an annotation with a polygon whose
  vertices are objects with the given \<open>x\<close> and \<open>y\<close>; the inputs of scenarios A, B and C
  of the specification.\<close>

definition px :: "int \<Rightarrow> jsval" where
  "px n = JNum (js_int n)"

definition face_of :: "(jsval \<times> jsval) list \<Rightarrow> face" where
  "face_of cs =
     \<lparr>boundingPoly = Some \<lparr>vertices = Some (map (\<lambda>(a, b). Some \<lparr>vertex_x = a, vertex_y = b\<rparr>) cs)\<rparr>\<rparr>"

definition face_A :: face where
  "face_A = face_of [(px 10, px 5), (px 50, px 40)]"

definition face_B :: face where
  "face_B = face_of [(px 5, JUndefined)]"

definition face_C1 :: face where
  "face_C1 = face_of [(px 30, px 0), (px 60, px 10)]"

definition face_C2 :: face where
  "face_C2 = face_of [(px 0, px 0), (px 10, px 10)]"

text \<open>A polygon of one vertex; a polygon whose left edge is that of \<open>face_C2\<close>; an
  annotation without a polygon; a polygon with a coordinate that is a string.\<close>

definition face_point :: face where
  "face_point = face_of [(px 7, px (- 3))]"

definition face_tie :: face where
  "face_tie = face_of [(px 0, px 9), (px 4, px 12)]"

definition face_bare :: face where
  "face_bare = \<lparr>boundingPoly = None\<rparr>"

definition face_text :: face where
  "face_text = face_of [(JStr ''12'', px 1), (JNull, px 2)]"

text \<open>Polygons of one vertex whose \<open>x\<close> is \<open>Infinity\<close>, \<open>NaN\<close>, 2 and 1.\<close>

definition face_inf :: face where
  "face_inf = face_of [(JNum PosInfinity, px 1)]"

definition face_nan :: face where
  "face_nan = face_of [(JNum NaN, px 1)]"

definition face_two :: face where
  "face_two = face_of [(px 2, px 0)]"

definition face_one :: face where
  "face_one = face_of [(px 1, px 0)]"

section \<open>Numbers\<close>

lemma js_le_refl: "a \<noteq> NaN \<Longrightarrow> js_le a a"
  by (simp add: js_le_def)

lemma js_le_trans: "js_le a b \<Longrightarrow> js_le b c \<Longrightarrow> js_le a c"
  by (auto simp: js_le_def)

lemma js_le_total: "a \<noteq> NaN \<Longrightarrow> b \<noteq> NaN \<Longrightarrow> js_le a b \<or> js_le b a"
  by (auto simp: js_le_def)

lemma js_lt_imp_le: "js_lt a b \<Longrightarrow> js_le a b"
  by (auto simp: js_lt_def js_le_def)

lemma not_js_lt_le: "a \<noteq> NaN \<Longrightarrow> b \<noteq> NaN \<Longrightarrow> \<not> js_lt a b \<Longrightarrow> js_le b a"
  by (auto simp: js_lt_def js_le_def)

lemma round_mag_pos: "0 < n \<Longrightarrow> 0 < round_mag n"
proof (cases "n < 2 ^ 53")
  case True
  assume "0 < n"
  with True show ?thesis by (simp add: round_mag_def)
next
  case False
  assume n: "0 < n"
  define s where "s = floorlog 2 n - 53"
  have "2 ^ (floorlog 2 n - 1) \<le> n"
    using floorlog_bounds [of n 2] n by simp
  moreover have "(2::nat) ^ s \<le> 2 ^ (floorlog 2 n - 1)"
    by (rule power_increasing) (simp_all add: s_def)
  ultimately have "2 ^ s \<le> n"
    by (rule_tac order_trans)
  then have q: "0 < n div 2 ^ s"
    by (simp add: div_greater_zero_iff)
  show ?thesis
    using False q by (simp add: round_mag_def Let_def s_def [symmetric])
qed

lemma round_double_pos: "0 < d \<Longrightarrow> js_lt (Fin 0) (round_double d)"
  using round_mag_pos [of "nat \<bar>d\<bar>"]
  by (simp add: round_double_def Let_def js_lt_def)

lemma round_double_neg: "d < 0 \<Longrightarrow> js_lt (round_double d) (Fin 0)"
  using round_mag_pos [of "nat \<bar>d\<bar>"]
  by (simp add: round_double_def Let_def js_lt_def)

lemma round_double_not_NaN: "round_double d \<noteq> NaN"
  by (simp add: round_double_def Let_def)

lemma sort_sign_round_double:
  "d \<noteq> 0 \<Longrightarrow> sort_sign (round_double d) = (if d < 0 then - 1 else 1)"
proof (cases "d < 0")
  case True
  then have l: "js_lt (round_double d) (Fin 0)"
    by (rule round_double_neg)
  then show ?thesis
    using True by (simp add: sort_sign_def)
next
  case False
  assume "d \<noteq> 0"
  with False have "0 < d" by simp
  then have l: "js_lt (Fin 0) (round_double d)"
    by (rule round_double_pos)
  then have "\<not> js_lt (round_double d) (Fin 0)"
    by (auto simp: js_lt_def)
  with l False show ?thesis
    by (simp add: sort_sign_def)
qed

text \<open>The sign of \<open>a - b\<close> is the order of the positions of \<open>a\<close> and \<open>b\<close>.\<close>

lemma sort_sign_js_sub:
  assumes "a \<noteq> NaN" and "b \<noteq> NaN"
  shows "sort_sign (js_sub a b) =
           (if js_key a < js_key b then - 1 else if js_key a = js_key b then 0 else 1)"
proof (cases "js_finite a \<and> js_finite b \<and> quanta a \<noteq> quanta b")
  case True
  then have s: "js_sub a b = round_double (quanta a - quanta b)"
    by (cases a; cases b) (simp_all add: js_sub_def)
  have k: "js_key a = (0, quanta a)" "js_key b = (0, quanta b)"
    using True by (cases a; cases b; simp)+
  show ?thesis
    using True by (simp add: s k sort_sign_round_double)
next
  case False
  with assms show ?thesis
    by (cases a; cases b) (simp_all add: js_sub_def sort_sign_def js_lt_def)
qed

lemma js_sub_nonneg_or_NaN:
  assumes "js_le a b"
  shows "js_sub b a = NaN \<or> js_le (Fin 0) (js_sub b a)"
proof (cases "js_finite a \<and> js_finite b \<and> quanta a \<noteq> quanta b")
  case True
  then have s: "js_sub b a = round_double (quanta b - quanta a)"
    by (cases a; cases b) (simp_all add: js_sub_def)
  have "quanta a < quanta b"
    using True assms by (cases a; cases b) (simp_all add: js_le_def)
  then have "js_lt (Fin 0) (round_double (quanta b - quanta a))"
    by (intro round_double_pos) simp
  then show ?thesis
    by (simp add: s js_lt_imp_le)
next
  case False
  with assms show ?thesis
    by (cases a; cases b) (simp_all add: js_sub_def js_le_def)
qed

lemma js_sub_nonneg_finite:
  assumes "js_le a b" and "js_finite a" and "js_finite b"
  shows "js_le (Fin 0) (js_sub b a)"
proof -
  have "js_sub b a \<noteq> NaN"
    using assms(2,3) by (cases a; cases b) (simp_all add: js_sub_def round_double_not_NaN)
  with js_sub_nonneg_or_NaN [OF assms(1)] show ?thesis by simp
qed


section \<open>Math.min and Math.max\<close>

lemma fold_min_step_NaN: "fold min_step xs NaN = NaN"
  by (induction xs) (simp_all add: min_step_def)

lemma fold_max_step_NaN: "fold max_step xs NaN = NaN"
  by (induction xs) (simp_all add: max_step_def)

lemma fold_min_step_has_NaN: "NaN \<in> set xs \<Longrightarrow> fold min_step xs acc = NaN"
  by (induction xs arbitrary: acc) (auto simp: min_step_def fold_min_step_NaN)

lemma fold_max_step_has_NaN: "NaN \<in> set xs \<Longrightarrow> fold max_step xs acc = NaN"
  by (induction xs arbitrary: acc) (auto simp: max_step_def fold_max_step_NaN)

lemma min_step_cases:
  assumes "x \<noteq> NaN" and "acc \<noteq> NaN"
  shows "min_step x acc \<noteq> NaN \<and> (min_step x acc = x \<or> min_step x acc = acc)
       \<and> js_le (min_step x acc) x \<and> js_le (min_step x acc) acc"
  using assms by (auto simp: min_step_def js_le_def js_lt_def)

lemma max_step_cases:
  assumes "x \<noteq> NaN" and "acc \<noteq> NaN"
  shows "max_step x acc \<noteq> NaN \<and> (max_step x acc = x \<or> max_step x acc = acc)
       \<and> js_le x (max_step x acc) \<and> js_le acc (max_step x acc)"
  using assms by (auto simp: max_step_def js_le_def js_lt_def)

lemma fold_min_step:
  assumes "NaN \<notin> set xs" and "acc \<noteq> NaN"
  shows "fold min_step xs acc \<noteq> NaN
       \<and> (fold min_step xs acc \<in> set xs \<or> fold min_step xs acc = acc)
       \<and> js_le (fold min_step xs acc) acc
       \<and> list_all (\<lambda>x. js_le (fold min_step xs acc) x) xs"
  using assms
proof (induction xs arbitrary: acc)
  case Nil
  then show ?case by (simp add: js_le_refl)
next
  case (Cons x xs)
  have x: "x \<noteq> NaN" and xs: "NaN \<notin> set xs"
    using Cons.prems(1) by auto
  note st = min_step_cases [OF x Cons.prems(2)]
  note ih = Cons.IH [OF xs, of "min_step x acc"]
  from st ih show ?case
    by (auto intro: js_le_trans)
qed

lemma fold_max_step:
  assumes "NaN \<notin> set xs" and "acc \<noteq> NaN"
  shows "fold max_step xs acc \<noteq> NaN
       \<and> (fold max_step xs acc \<in> set xs \<or> fold max_step xs acc = acc)
       \<and> js_le acc (fold max_step xs acc)
       \<and> list_all (\<lambda>x. js_le x (fold max_step xs acc)) xs"
  using assms
proof (induction xs arbitrary: acc)
  case Nil
  then show ?case by (simp add: js_le_refl)
next
  case (Cons x xs)
  have x: "x \<noteq> NaN" and xs: "NaN \<notin> set xs"
    using Cons.prems(1) by auto
  note st = max_step_cases [OF x Cons.prems(2)]
  note ih = Cons.IH [OF xs, of "max_step x acc"]
  from st ih show ?case
    by (auto intro: js_le_trans)
qed

lemma math_min_NaN: "NaN \<in> set xs \<Longrightarrow> math_min xs = NaN"
  by (simp add: math_min_def fold_min_step_has_NaN)

lemma math_max_NaN: "NaN \<in> set xs \<Longrightarrow> math_max xs = NaN"
  by (simp add: math_max_def fold_max_step_has_NaN)

lemma math_min_is_minimum:
  assumes "xs \<noteq> []" and "NaN \<notin> set xs"
  shows "is_minimum (math_min xs) xs"
proof -
  note f = fold_min_step [OF assms(2), of PosInfinity]
  have "math_min xs \<in> set xs"
  proof (cases "fold min_step xs PosInfinity \<in> set xs")
    case True
    then show ?thesis by (simp add: math_min_def)
  next
    case False
    with f have p: "fold min_step xs PosInfinity = PosInfinity" and
      a: "list_all (\<lambda>x. js_le PosInfinity x) xs"
      by auto
    from assms(1) obtain x where x: "x \<in> set xs"
      by (cases xs) auto
    with a have "js_le PosInfinity x"
      by (simp add: list_all_iff)
    then have "x = PosInfinity"
      by (cases x) (simp_all add: js_le_def)
    with x p False show ?thesis by simp
  qed
  with f show ?thesis
    by (simp add: is_minimum_def math_min_def)
qed

lemma math_max_is_maximum:
  assumes "xs \<noteq> []" and "NaN \<notin> set xs"
  shows "is_maximum (math_max xs) xs"
proof -
  note f = fold_max_step [OF assms(2), of NegInfinity]
  have "math_max xs \<in> set xs"
  proof (cases "fold max_step xs NegInfinity \<in> set xs")
    case True
    then show ?thesis by (simp add: math_max_def)
  next
    case False
    with f have p: "fold max_step xs NegInfinity = NegInfinity" and
      a: "list_all (\<lambda>x. js_le x NegInfinity) xs"
      by auto
    from assms(1) obtain x where x: "x \<in> set xs"
      by (cases xs) auto
    with a have "js_le x NegInfinity"
      by (simp add: list_all_iff)
    then have "x = NegInfinity"
      by (cases x) (simp_all add: js_le_def)
    with x p False show ?thesis by simp
  qed
  with f show ?thesis
    by (simp add: is_maximum_def math_max_def)
qed

lemma math_min_le_max:
  assumes "xs \<noteq> []" and "NaN \<notin> set xs"
  shows "js_le (math_min xs) (math_max xs)"
proof -
  have "math_max xs \<in> set xs"
    using math_max_is_maximum [OF assms] by (simp add: is_maximum_def)
  moreover have "list_all (\<lambda>x. js_le (math_min xs) x) xs"
    using math_min_is_minimum [OF assms] by (simp add: is_minimum_def)
  ultimately show ?thesis
    by (simp add: list_all_iff)
qed

text \<open>Every rectangle has \<open>w\<close> and \<open>h\<close> that are \<open>NaN\<close> or not negative.\<close>

lemma extent_nonneg_or_NaN:
  assumes "xs \<noteq> []"
  shows "js_sub (math_max xs) (math_min xs) = NaN
       \<or> js_le (Fin 0) (js_sub (math_max xs) (math_min xs))"
proof (cases "NaN \<in> set xs")
  case True
  then show ?thesis
    by (simp add: math_min_NaN math_max_NaN js_sub_def)
next
  case False
  from math_min_le_max [OF assms False] show ?thesis
    by (rule js_sub_nonneg_or_NaN)
qed

lemma extent_nonneg_finite:
  assumes "xs \<noteq> []" and "list_all js_finite xs"
  shows "js_le (Fin 0) (js_sub (math_max xs) (math_min xs))"
proof -
  have n: "NaN \<notin> set xs"
    using assms(2) by (auto simp: list_all_iff)
  have "math_min xs \<in> set xs" "math_max xs \<in> set xs"
    using math_min_is_minimum [OF assms(1) n] math_max_is_maximum [OF assms(1) n]
    by (simp_all add: is_minimum_def is_maximum_def)
  with assms(2) have "js_finite (math_min xs)" "js_finite (math_max xs)"
    by (simp_all add: list_all_iff)
  with math_min_le_max [OF assms(1) n] show ?thesis
    by (rule js_sub_nonneg_finite)
qed


section \<open>The loop\<close>

lemma push_if_number_append: "push_if_number c xs = xs @ push_if_number c []"
  by (cases c) (simp_all add: push_if_number_def)

lemma forEach_push_eq:
  "forEach_push vs xs ys =
     (if None \<in> set vs then Inl TypeError else Inr (xs @ numeric_xs vs, ys @ numeric_ys vs))"
proof (induction vs xs ys rule: forEach_push.induct)
  case (1 xs ys)
  show ?case by (simp add: numeric_xs_def numeric_ys_def)
next
  case (2 vs xs ys)
  show ?case by simp
next
  case (3 v vs xs ys)
  have px: "push_if_number (vertex_x v) xs = xs @ push_if_number (vertex_x v) []"
    by (rule push_if_number_append)
  have py: "push_if_number (vertex_y v) ys = ys @ push_if_number (vertex_y v) []"
    by (rule push_if_number_append)
  show ?case
    using "3.IH" px py by (simp add: numeric_xs_def numeric_ys_def)
qed

lemma face_rect_eq:
  "face_rect (Some f) =
     (if None \<in> set (verts_of f) then Inl TypeError
      else if degenerate f then Inr None
      else Inr (Some (bounding_rect f)))"
  by (simp add: forEach_push_eq degenerate_def bounding_rect_def Let_def)

declare face_rect.simps(2) [simp del]

lemma numeric_xs_empty_iff:
  "numeric_xs vs = [] \<longleftrightarrow> (\<forall>u n. Some u \<in> set vs \<longrightarrow> vertex_x u \<noteq> JNum n)"
proof (induction vs)
  case Nil
  show ?case by (simp add: numeric_xs_def)
next
  case (Cons v vs)
  show ?case
  proof (cases v)
    case None
    with Cons show ?thesis by (simp add: numeric_xs_def)
  next
    case (Some u)
    with Cons show ?thesis
      by (cases "vertex_x u") (auto simp: numeric_xs_def push_if_number_def)
  qed
qed

lemma numeric_ys_empty_iff:
  "numeric_ys vs = [] \<longleftrightarrow> (\<forall>u n. Some u \<in> set vs \<longrightarrow> vertex_y u \<noteq> JNum n)"
proof (induction vs)
  case Nil
  show ?case by (simp add: numeric_ys_def)
next
  case (Cons v vs)
  show ?case
  proof (cases v)
    case None
    with Cons show ?thesis by (simp add: numeric_ys_def)
  next
    case (Some u)
    with Cons show ?thesis
      by (cases "vertex_y u") (auto simp: numeric_ys_def push_if_number_def)
  qed
qed

section \<open>The sort\<close>

lemma mset_insert_cmp: "mset (insert_cmp cmp a bs) = add_mset a (mset bs)"
  by (induction bs) simp_all

lemma mset_array_sort: "mset (array_sort cmp as) = mset as"
  by (induction as) (simp_all add: array_sort_def mset_insert_cmp)

lemma set_array_sort: "set (array_sort cmp as) = set as"
  using mset_array_sort [of cmp as] by (metis set_mset_mset)

lemma length_array_sort: "length (array_sort cmp as) = length as"
  using mset_array_sort [of cmp as] by (metis size_mset)

lemma sort_sign_cmp_x:
  assumes "rect_x a \<noteq> NaN" and "rect_x b \<noteq> NaN"
  shows "sort_sign (cmp_x a b) =
           (if x_key a < x_key b then - 1 else if x_key a = x_key b then 0 else 1)"
  using sort_sign_js_sub [OF assms] by (simp add: cmp_x_def x_key_def)

lemma insert_cmp_x:
  assumes "rect_x a \<noteq> NaN" and "\<forall>b \<in> set bs. rect_x b \<noteq> NaN"
  shows "insert_cmp cmp_x a bs = insort_key x_key a bs"
  using assms(2)
proof (induction bs)
  case Nil
  show ?case by simp
next
  case (Cons b bs)
  have "sort_sign (cmp_x a b) \<le> 0 \<longleftrightarrow> x_key a \<le> x_key b"
    using sort_sign_cmp_x [OF assms(1), of b] Cons.prems by auto
  with Cons show ?case by simp
qed

lemma array_sort_cmp_x:
  assumes "\<forall>b \<in> set as. rect_x b \<noteq> NaN"
  shows "array_sort cmp_x as = sort_key x_key as"
  using assms
proof (induction as)
  case Nil
  show ?case by (simp add: array_sort_def)
next
  case (Cons a as)
  have ih: "array_sort cmp_x as = sort_key x_key as"
    using Cons by simp
  have "insert_cmp cmp_x a (sort_key x_key as) = insort_key x_key a (sort_key x_key as)"
    using Cons.prems by (intro insert_cmp_x) simp_all
  with ih show ?case
    by (simp add: array_sort_def)
qed

lemma consistent_no_NaN:
  assumes "\<forall>b \<in> set as. rect_x b \<noteq> NaN"
  shows "consistent cmp_x as"
  unfolding consistent_def
proof (intro ballI)
  fix a b c
  assume "a \<in> set as" "b \<in> set as" "c \<in> set as"
  with assms have n: "rect_x a \<noteq> NaN" "rect_x b \<noteq> NaN" "rect_x c \<noteq> NaN"
    by simp_all
  show "sort_sign (cmp_x a a) = 0 \<and>
        sort_sign (cmp_x b a) = - sort_sign (cmp_x a b) \<and>
        (sort_sign (cmp_x a b) \<le> 0 \<and> sort_sign (cmp_x b c) \<le> 0 \<longrightarrow> sort_sign (cmp_x a c) \<le> 0)"
    using n by (auto simp: sort_sign_cmp_x)
qed

lemma sort_sign_NaN: "sort_sign NaN = 0"
  by (simp add: sort_sign_def js_lt_def)

lemma cmp_x_NaN: "rect_x a = NaN \<or> rect_x b = NaN \<Longrightarrow> sort_sign (cmp_x a b) = 0"
  by (auto simp: cmp_x_def js_sub_def sort_sign_NaN)

text \<open>A consistent comparator on a list with an \<open>x\<close> that is \<open>NaN\<close> makes all elements
  equal.\<close>

lemma consistent_NaN_all_equal:
  assumes c: "consistent cmp_x as" and n: "n \<in> set as" "rect_x n = NaN"
    and a: "a \<in> set as" and b: "b \<in> set as"
  shows "sort_sign (cmp_x a b) = 0"
proof -
  have an: "sort_sign (cmp_x a n) = 0" and nb: "sort_sign (cmp_x n b) = 0"
    and bn: "sort_sign (cmp_x b n) = 0" and na: "sort_sign (cmp_x n a) = 0"
    using n(2) by (simp_all add: cmp_x_NaN)
  have ab: "sort_sign (cmp_x a b) \<le> 0"
    using c a n(1) b an nb unfolding consistent_def by (metis order_refl)
  have ba: "sort_sign (cmp_x b a) \<le> 0"
    using c a n(1) b bn na unfolding consistent_def by (metis order_refl)
  have "sort_sign (cmp_x b a) = - sort_sign (cmp_x a b)"
    using c a b unfolding consistent_def by blast
  with ab ba show ?thesis by simp
qed

lemma array_sort_all_equal:
  assumes "\<forall>a \<in> set as. \<forall>b \<in> set as. sort_sign (cmp a b) = 0"
  shows "array_sort cmp as = as"
  using assms
proof (induction as)
  case Nil
  show ?case by (simp add: array_sort_def)
next
  case (Cons a as)
  have ih: "array_sort cmp as = as"
    using Cons by simp
  have "insert_cmp cmp a as = a # as"
    using Cons.prems by (cases as) simp_all
  with ih show ?case
    by (simp add: array_sort_def)
qed

lemma filter_all: "\<forall>b \<in> set bs. P b \<Longrightarrow> filter P bs = bs"
  by (induction bs) simp_all

lemma array_sort_contract:
  assumes "consistent cmp_x as"
  shows "sort_contract cmp_x as (array_sort cmp_x as)"
proof (cases "\<forall>b \<in> set as. rect_x b \<noteq> NaN")
  case True
  have s: "array_sort cmp_x as = sort_key x_key as"
    using True by (rule array_sort_cmp_x)
  have st: "filter (\<lambda>b. sort_sign (cmp_x a b) = 0) (sort_key x_key as) =
            filter (\<lambda>b. sort_sign (cmp_x a b) = 0) as" if "a \<in> set as" for a
  proof -
    have e: "sort_sign (cmp_x a b) = 0 \<longleftrightarrow> x_key b = x_key a" if "b \<in> set as" for b
      using True \<open>a \<in> set as\<close> that by (auto simp: sort_sign_cmp_x)
    have "filter (\<lambda>b. sort_sign (cmp_x a b) = 0) (sort_key x_key as) =
          filter (\<lambda>b. x_key b = x_key a) (sort_key x_key as)"
      by (rule filter_cong) (simp_all add: e)
    also have "\<dots> = filter (\<lambda>b. x_key b = x_key a) as"
      by (rule sort_key_stable)
    also have "\<dots> = filter (\<lambda>b. sort_sign (cmp_x a b) = 0) as"
      by (rule filter_cong) (simp_all add: e)
    finally show ?thesis .
  qed
  have "sorted (map x_key (sort_key x_key as))"
    by simp
  then have "sorted_wrt (\<lambda>a b. x_key a \<le> x_key b) (sort_key x_key as)"
    by (simp add: sorted_map)
  then have so: "sorted_wrt (\<lambda>a b. sort_sign (cmp_x a b) \<le> 0) (sort_key x_key as)"
    by (rule sorted_wrt_mono_rel [rotated]) (use True in \<open>auto simp: sort_sign_cmp_x\<close>)
  show ?thesis
    using st so by (simp add: sort_contract_def s)
next
  case False
  then obtain n where n: "n \<in> set as" "rect_x n = NaN"
    by blast
  have eq: "\<forall>a \<in> set as. \<forall>b \<in> set as. sort_sign (cmp_x a b) = 0"
    using consistent_NaN_all_equal [OF assms n] by blast
  have s: "array_sort cmp_x as = as"
    using eq by (rule array_sort_all_equal)
  have "sorted_wrt (\<lambda>a b. sort_sign (cmp_x a b) \<le> 0) as"
    using eq by (simp add: sorted_wrt_iff_nth_less)
  then show ?thesis
    by (simp add: sort_contract_def s)
qed

lemma sort_contract_unique:
  assumes c: "consistent cmp_x as" and k: "sort_contract cmp_x as bs"
  shows "bs = array_sort cmp_x as"
proof (cases "\<forall>b \<in> set as. rect_x b \<noteq> NaN")
  case True
  have m: "mset bs = mset as"
    using k by (simp add: sort_contract_def)
  then have sb: "set bs = set as"
    by (metis set_mset_mset)
  have "sorted_wrt (\<lambda>a b. sort_sign (cmp_x a b) \<le> 0) bs"
    using k by (simp add: sort_contract_def)
  then have "sorted_wrt (\<lambda>a b. x_key a \<le> x_key b) bs"
    by (rule sorted_wrt_mono_rel [rotated]) (use True sb in \<open>auto simp: sort_sign_cmp_x split: if_splits\<close>)
  then have s: "sorted (map x_key bs)"
    by (simp add: sorted_map)
  have f: "filter (\<lambda>b. x_key a = x_key b) bs = filter (\<lambda>b. x_key a = x_key b) as"
    if "a \<in> set bs" for a
  proof -
    from that sb have a: "a \<in> set as" by simp
    have e: "sort_sign (cmp_x a b) = 0 \<longleftrightarrow> x_key a = x_key b" if "b \<in> set as" for b
      using True a that by (auto simp: sort_sign_cmp_x)
    have "filter (\<lambda>b. x_key a = x_key b) bs = filter (\<lambda>b. sort_sign (cmp_x a b) = 0) bs"
      by (rule filter_cong) (simp_all add: e sb)
    also have "\<dots> = filter (\<lambda>b. sort_sign (cmp_x a b) = 0) as"
      using k a by (simp add: sort_contract_def)
    also have "\<dots> = filter (\<lambda>b. x_key a = x_key b) as"
      by (rule filter_cong) (simp_all add: e)
    finally show ?thesis .
  qed
  have "sort_key x_key as = bs"
    using m f s by (rule properties_for_sort_key)
  then show ?thesis
    by (simp add: array_sort_cmp_x [OF True])
next
  case False
  then obtain n where n: "n \<in> set as" "rect_x n = NaN"
    by blast
  have eq: "\<forall>a \<in> set as. \<forall>b \<in> set as. sort_sign (cmp_x a b) = 0"
    using consistent_NaN_all_equal [OF c n] by blast
  have s: "array_sort cmp_x as = as"
    using eq by (rule array_sort_all_equal)
  have sb: "set bs = set as"
    using k by (metis sort_contract_def set_mset_mset)
  have "filter (\<lambda>b. sort_sign (cmp_x n b) = 0) bs = filter (\<lambda>b. sort_sign (cmp_x n b) = 0) as"
    using k n(1) by (simp add: sort_contract_def)
  moreover have "filter (\<lambda>b. sort_sign (cmp_x n b) = 0) bs = bs"
    by (rule filter_all) (use eq n(1) sb in auto)
  moreover have "filter (\<lambda>b. sort_sign (cmp_x n b) = 0) as = as"
    by (rule filter_all) (use eq n(1) in auto)
  ultimately show ?thesis
    by (simp add: s)
qed

section \<open>The pipeline in closed form\<close>

lemma map_faces_eq:
  "map_faces as =
     (if agreed_shape as
      then Inr (map (\<lambda>f. if degenerate f then None else Some (bounding_rect f)) (filter_Boolean as))
      else Inl TypeError)"
proof (induction as)
  case Nil
  show ?case by (simp add: agreed_shape_def)
next
  case (Cons a as)
  show ?case
  proof (cases a)
    case None
    then show ?thesis by (simp add: agreed_shape_def)
  next
    case (Some f)
    then show ?thesis using Cons.IH
      by (simp add: agreed_shape_def face_rect_eq)
  qed
qed

lemma filter_Boolean_map_rect:
  "filter_Boolean (map (\<lambda>f. if degenerate f then None else Some (bounding_rect f)) fs) =
     map bounding_rect (filter (\<lambda>f. \<not> degenerate f) fs)"
  by (induction fs) simp_all

lemma faces_eq:
  "faces as =
     (if agreed_shape as then Inr (array_sort cmp_x (map bounding_rect (survivors as)))
      else Inl TypeError)"
  by (simp add: faces_def map_faces_eq filter_Boolean_map_rect survivors_def)

lemma filter_Boolean_append: "filter_Boolean (as @ bs) = filter_Boolean as @ filter_Boolean bs"
  by (induction as rule: filter_Boolean.induct) simp_all

lemma length_filter_Boolean: "length (filter_Boolean as) \<le> length as"
  by (induction as rule: filter_Boolean.induct) simp_all

lemma set_filter_Boolean: "set (filter_Boolean as) = {f. Some f \<in> set as}"
  by (induction as rule: filter_Boolean.induct) auto


lemma faces_Inr_eq:
  "faces as = Inr rs \<Longrightarrow> rs = array_sort cmp_x (map bounding_rect (survivors as))"
  by (simp add: faces_eq split: if_splits)


lemma faces_raises_iff: "faces as = Inl TypeError \<longleftrightarrow> \<not> agreed_shape as"
  by (simp add: faces_eq)

section \<open>Whole pixels\<close>

lemma round_mag_exact:
  assumes "0 < d" and "d < 2 ^ 53"
  shows "round_mag (d * 2 ^ denorm_exp) = d * 2 ^ denorm_exp"
proof -
  define s where "s = floorlog 2 (d * 2 ^ denorm_exp) - 53"
  have fl: "floorlog 2 (d * 2 ^ denorm_exp) = floorlog 2 d + denorm_exp"
    using assms(1) by simp
  have "floorlog 2 d \<le> 53"
    using assms(2) by (simp add: floorlog_le_iff)
  then have s: "s \<le> denorm_exp"
    by (simp add: s_def fl)
  then obtain t where t: "denorm_exp = t + s"
    by (metis le_add_diff_inverse2)
  have n: "d * 2 ^ denorm_exp = (d * 2 ^ t) * 2 ^ s"
    by (simp add: t power_add)
  have big: "\<not> d * 2 ^ denorm_exp < 2 ^ 53"
  proof -
    have "(2::nat) ^ 53 \<le> 2 ^ denorm_exp"
      by (rule power_increasing) (simp_all add: denorm_exp_def)
    also have "\<dots> \<le> d * 2 ^ denorm_exp"
      using assms(1) by simp
    finally show ?thesis by simp
  qed
  have q: "(d * 2 ^ denorm_exp) div 2 ^ s = d * 2 ^ t"
    by (simp add: n)
  have r: "(d * 2 ^ denorm_exp) mod 2 ^ s = 0"
    by (simp add: n)
  show ?thesis
    using big
    by (simp only: round_mag_def Let_def s_def [symmetric] q r if_False)
       (simp add: n)
qed

lemma round_double_js_int:
  assumes "d \<noteq> 0" and "\<bar>d\<bar> < 2 ^ 53"
  shows "round_double (d * 2 ^ denorm_exp) = js_int d"
proof -
  define n where "n = nat \<bar>d\<bar>"
  have n: "0 < n" "n < 2 ^ 53"
    using assms by (simp_all add: n_def nat_less_iff)
  have a: "nat \<bar>d * 2 ^ denorm_exp\<bar> = n * 2 ^ denorm_exp"
    by (simp add: n_def abs_mult nat_mult_distrib nat_power_eq)
  have m: "round_mag (n * 2 ^ denorm_exp) = n * 2 ^ denorm_exp"
    using n by (rule round_mag_exact)
  have "n * 2 ^ denorm_exp < 2 ^ 53 * 2 ^ denorm_exp"
    using n by simp
  also have "\<dots> = 2 ^ (53 + denorm_exp)"
    by (simp add: power_add)
  also have "\<dots> < (2::nat) ^ (1024 + denorm_exp)"
    by (rule power_strict_increasing) simp_all
  finally have small: "\<not> 2 ^ (1024 + denorm_exp) \<le> n * 2 ^ denorm_exp"
    by simp
  have sg: "(d * 2 ^ denorm_exp < 0) = (d < 0)"
    by (simp add: mult_less_0_iff)
  have v: "(if d < 0 then - int (n * 2 ^ denorm_exp) else int (n * 2 ^ denorm_exp)) = d * 2 ^ denorm_exp"
    by (simp add: n_def)
  show ?thesis
    unfolding round_double_def Let_def a m js_int_def using small sg v by simp
qed

text \<open>The difference of whole pixels is exact.\<close>

lemma js_sub_js_int:
  assumes "\<bar>a - b\<bar> < 2 ^ 53"
  shows "js_sub (js_int a) (js_int b) = js_int (a - b)"
proof (cases "a = b")
  case True
  then show ?thesis by (simp add: js_sub_def js_int_def)
next
  case False
  have "a * 2 ^ denorm_exp - b * 2 ^ denorm_exp = (a - b) * 2 ^ denorm_exp"
    by (simp add: algebra_simps)
  with False assms show ?thesis
    using round_double_js_int [of "a - b"] by (simp add: js_sub_def js_int_def)
qed

lemma js_lt_js_int: "js_lt (js_int a) (js_int b) \<longleftrightarrow> a < b"
  by (simp add: js_lt_def js_int_def)

lemma js_le_js_int: "js_le (js_int a) (js_int b) \<longleftrightarrow> a \<le> b"
  by (simp add: js_le_def js_int_def)

lemma js_eq_js_int: "js_eq (js_int a) (js_int b) \<longleftrightarrow> a = b"
  by (simp add: js_eq_def js_int_def)

lemma js_int_eq_iff: "js_int a = js_int b \<longleftrightarrow> a = b"
  by (simp add: js_int_def)

lemma js_int_0: "js_int 0 = Fin 0"
  by (simp add: js_int_def)

lemma js_int_distinct:
  "js_int a \<noteq> NaN" "js_int a \<noteq> NegZero" "js_int a \<noteq> PosInfinity" "js_int a \<noteq> NegInfinity"
  "NaN \<noteq> js_int a" "NegZero \<noteq> js_int a" "PosInfinity \<noteq> js_int a" "NegInfinity \<noteq> js_int a"
  by (simp_all add: js_int_def)

text \<open>A difference that is no double is rounded: \<open>2\<^sup>5\<^sup>3 - (-1)\<close> is \<open>2\<^sup>5\<^sup>3\<close>.\<close>

lemma js_sub_rounds: "js_sub (js_int (2 ^ 53)) (js_int (- 1)) = js_int (2 ^ 53)"
proof -
  define n :: nat where "n = (2 ^ 53 + 1) * 2 ^ denorm_exp"
  have fl0: "floorlog 2 (2 ^ 53 + 1 :: nat) = 54"
  proof (rule antisym)
    show "floorlog 2 (2 ^ 53 + 1 :: nat) \<le> 54"
      by (simp add: floorlog_le_iff)
    show "54 \<le> floorlog 2 (2 ^ 53 + 1 :: nat)"
      by (rule floorlog_geI) simp_all
  qed
  have fl: "floorlog 2 n = 54 + denorm_exp"
    unfolding n_def using fl0 by (subst floorlog_power) simp_all
  have s: "floorlog 2 n - 53 = Suc denorm_exp"
    by (simp add: fl)
  have n2: "n = (2 ^ 53 + 1) * 2 ^ denorm_exp"
    by (rule n_def)
  have q: "n div 2 ^ Suc denorm_exp = 2 ^ 52"
  proof -
    have "n div 2 ^ Suc denorm_exp = ((2 ^ 53 + 1) * 2 ^ denorm_exp) div (2 * 2 ^ denorm_exp)"
      by (simp add: n_def)
    also have "\<dots> = (2 ^ 53 + 1) div (2 :: nat)"
      by (subst div_mult_mult2) simp_all
    also have "\<dots> = 2 ^ 52"
      by simp
    finally show ?thesis .
  qed
  have r: "n mod 2 ^ Suc denorm_exp = 2 ^ denorm_exp"
  proof -
    have "n mod 2 ^ Suc denorm_exp = ((2 ^ 53 + 1) * 2 ^ denorm_exp) mod (2 * 2 ^ denorm_exp)"
      by (simp add: n_def)
    also have "\<dots> = ((2 ^ 53 + 1) mod (2 :: nat)) * 2 ^ denorm_exp"
      by (simp only: mult_mod_left)
    also have "\<dots> = 2 ^ denorm_exp"
      by simp
    finally show ?thesis .
  qed
  have big: "\<not> n < 2 ^ 53"
  proof -
    have "(2::nat) ^ 53 \<le> (2 ^ 53 + 1) * 1"
      by simp
    also have "\<dots> \<le> (2 ^ 53 + 1) * 2 ^ denorm_exp"
      by (rule mult_le_mono2) simp
    finally show ?thesis by (simp add: n_def)
  qed
  have m: "round_mag n = 2 ^ 53 * 2 ^ denorm_exp"
    using big by (simp add: round_mag_def Let_def s q r del: power_Suc) simp
  have "2 ^ 53 * 2 ^ denorm_exp = (2::nat) ^ (53 + denorm_exp)"
    by (simp add: power_add)
  also have "\<dots> < (2::nat) ^ (1024 + denorm_exp)"
    by (rule power_strict_increasing) simp_all
  finally have small: "\<not> 2 ^ (1024 + denorm_exp) \<le> (2::nat) ^ 53 * 2 ^ denorm_exp"
    by simp
  have d: "quanta (js_int (2 ^ 53)) - quanta (js_int (- 1)) = int n"
    by (simp add: js_int_def n_def algebra_simps)
  have ne: "quanta (js_int (2 ^ 53)) \<noteq> quanta (js_int (- 1))"
    by (simp add: js_int_def)
  have "js_sub (js_int (2 ^ 53)) (js_int (- 1)) = round_double (int n)"
    using ne d by (simp add: js_sub_def js_int_distinct)
  also have "\<dots> = Fin (int (2 ^ 53 * 2 ^ denorm_exp))"
    using small by (simp add: round_double_def Let_def m)
  also have "\<dots> = js_int (2 ^ 53)"
    by (simp add: js_int_def)
  finally show ?thesis .
qed

lemma js_finite_js_int: "js_finite (js_int a)"
  by (simp add: js_int_def)

lemma min_step_js_int:
  "min_step (js_int a) PosInfinity = js_int a"
  "min_step (js_int a) (js_int b) = js_int (min a b)"
  by (auto simp: min_step_def js_int_def js_lt_def min_def)

lemma max_step_js_int:
  "max_step (js_int a) NegInfinity = js_int a"
  "max_step (js_int a) (js_int b) = js_int (max a b)"
  by (auto simp: max_step_def js_int_def js_lt_def max_def)

lemma sort_sign_js_int: "sort_sign (js_int d) = (if d < 0 then - 1 else if 0 < d then 1 else 0)"
  using js_lt_js_int [of d 0] js_lt_js_int [of 0 d] by (simp add: sort_sign_def js_int_0)

lemma js_sub_special:
  "js_sub NaN b = NaN" "js_sub a NaN = NaN" "js_sub PosInfinity PosInfinity = NaN"
  by (simp_all add: js_sub_def)

lemma js_le_NaN: "\<not> js_le NaN b" "\<not> js_le a NaN"
  by (simp_all add: js_le_def)

lemma step_special:
  "min_step NaN acc = NaN" "max_step NaN acc = NaN"
  "min_step PosInfinity PosInfinity = PosInfinity" "max_step PosInfinity NegInfinity = PosInfinity"
  by (simp_all add: min_step_def max_step_def js_lt_def)

lemmas js_eval =
  js_sub_js_int js_lt_js_int js_le_js_int js_eq_js_int js_int_eq_iff js_int_distinct
  js_finite_js_int min_step_js_int max_step_js_int sort_sign_js_int js_sub_special step_special
  sort_sign_NaN js_le_NaN

section \<open>The example inputs\<close>

lemma verts_of_face_of:
  "verts_of (face_of cs) = map (\<lambda>(a, b). Some \<lparr>vertex_x = a, vertex_y = b\<rparr>) cs"
  by (simp add: verts_of_def face_of_def)

lemma shape_face_of: "None \<notin> set (verts_of (face_of cs))"
  by (auto simp: verts_of_face_of)

lemma numeric_xs_face_of:
  "numeric_xs (verts_of (face_of cs)) = concat (map (\<lambda>(a, b). push_if_number a []) cs)"
  by (induction cs) (auto simp: verts_of_face_of numeric_xs_def)

lemma numeric_ys_face_of:
  "numeric_ys (verts_of (face_of cs)) = concat (map (\<lambda>(a, b). push_if_number b []) cs)"
  by (induction cs) (auto simp: verts_of_face_of numeric_ys_def)

lemmas face_defs =
  face_A_def face_B_def face_C1_def face_C2_def face_point_def face_tie_def face_text_def
  face_inf_def face_nan_def face_two_def face_one_def

lemma example_shapes:
  "None \<notin> set (verts_of face_A)" "None \<notin> set (verts_of face_B)"
  "None \<notin> set (verts_of face_C1)" "None \<notin> set (verts_of face_C2)"
  "None \<notin> set (verts_of face_point)" "None \<notin> set (verts_of face_tie)"
  "None \<notin> set (verts_of face_text)" "None \<notin> set (verts_of face_inf)"
  "None \<notin> set (verts_of face_nan)" "None \<notin> set (verts_of face_two)"
  "None \<notin> set (verts_of face_one)" "None \<notin> set (verts_of face_bare)"
  by (simp_all add: face_defs shape_face_of) (simp add: face_bare_def verts_of_def)

lemma example_xs:
  "numeric_xs (verts_of face_A) = [js_int 10, js_int 50]"
  "numeric_xs (verts_of face_B) = [js_int 5]"
  "numeric_xs (verts_of face_C1) = [js_int 30, js_int 60]"
  "numeric_xs (verts_of face_C2) = [js_int 0, js_int 10]"
  "numeric_xs (verts_of face_point) = [js_int 7]"
  "numeric_xs (verts_of face_tie) = [js_int 0, js_int 4]"
  "numeric_xs (verts_of face_text) = []"
  "numeric_xs (verts_of face_inf) = [PosInfinity]"
  "numeric_xs (verts_of face_nan) = [NaN]"
  "numeric_xs (verts_of face_two) = [js_int 2]"
  "numeric_xs (verts_of face_one) = [js_int 1]"
  "numeric_xs (verts_of face_bare) = []"
  by (simp_all add: face_defs numeric_xs_face_of push_if_number_def px_def)
     (simp add: face_bare_def verts_of_def numeric_xs_def)

lemma example_ys:
  "numeric_ys (verts_of face_A) = [js_int 5, js_int 40]"
  "numeric_ys (verts_of face_B) = []"
  "numeric_ys (verts_of face_C1) = [js_int 0, js_int 10]"
  "numeric_ys (verts_of face_C2) = [js_int 0, js_int 10]"
  "numeric_ys (verts_of face_point) = [js_int (- 3)]"
  "numeric_ys (verts_of face_tie) = [js_int 9, js_int 12]"
  "numeric_ys (verts_of face_text) = [js_int 1, js_int 2]"
  "numeric_ys (verts_of face_inf) = [js_int 1]"
  "numeric_ys (verts_of face_nan) = [js_int 1]"
  "numeric_ys (verts_of face_two) = [js_int 0]"
  "numeric_ys (verts_of face_one) = [js_int 0]"
  "numeric_ys (verts_of face_bare) = []"
  by (simp_all add: face_defs numeric_ys_face_of push_if_number_def px_def)
     (simp add: face_bare_def verts_of_def numeric_ys_def)

lemma example_degenerate:
  "\<not> degenerate face_A" "degenerate face_B" "\<not> degenerate face_C1" "\<not> degenerate face_C2"
  "\<not> degenerate face_point" "\<not> degenerate face_tie" "degenerate face_text"
  "\<not> degenerate face_inf" "\<not> degenerate face_nan" "\<not> degenerate face_two"
  "\<not> degenerate face_one" "degenerate face_bare"
  by (simp_all add: degenerate_def example_xs example_ys)

lemma example_rects:
  "bounding_rect face_A = \<lparr>rect_x = js_int 10, rect_y = js_int 5, rect_w = js_int 40, rect_h = js_int 35\<rparr>"
  "bounding_rect face_C1 = \<lparr>rect_x = js_int 30, rect_y = js_int 0, rect_w = js_int 30, rect_h = js_int 10\<rparr>"
  "bounding_rect face_C2 = \<lparr>rect_x = js_int 0, rect_y = js_int 0, rect_w = js_int 10, rect_h = js_int 10\<rparr>"
  "bounding_rect face_point = \<lparr>rect_x = js_int 7, rect_y = js_int (- 3), rect_w = js_int 0, rect_h = js_int 0\<rparr>"
  "bounding_rect face_tie = \<lparr>rect_x = js_int 0, rect_y = js_int 9, rect_w = js_int 4, rect_h = js_int 3\<rparr>"
  "bounding_rect face_inf = \<lparr>rect_x = PosInfinity, rect_y = js_int 1, rect_w = NaN, rect_h = js_int 0\<rparr>"
  "bounding_rect face_nan = \<lparr>rect_x = NaN, rect_y = js_int 1, rect_w = NaN, rect_h = js_int 0\<rparr>"
  "bounding_rect face_two = \<lparr>rect_x = js_int 2, rect_y = js_int 0, rect_w = js_int 0, rect_h = js_int 0\<rparr>"
  "bounding_rect face_one = \<lparr>rect_x = js_int 1, rect_y = js_int 0, rect_w = js_int 0, rect_h = js_int 0\<rparr>"
  by (simp_all add: bounding_rect_def example_xs example_ys math_min_def math_max_def js_eval)

lemmas face_eval =
  faces_eq agreed_shape_def survivors_def example_shapes example_degenerate example_rects
  array_sort_def cmp_x_def face_rect_eq

section \<open>The claims on the face pipeline\<close>

lemma bounding_rect_extent:
  assumes "\<not> degenerate f"
  shows "(rect_w (bounding_rect f) = NaN \<or> js_le (Fin 0) (rect_w (bounding_rect f)))
       \<and> (rect_h (bounding_rect f) = NaN \<or> js_le (Fin 0) (rect_h (bounding_rect f)))"
  using assms extent_nonneg_or_NaN [of "numeric_xs (verts_of f)"]
    extent_nonneg_or_NaN [of "numeric_ys (verts_of f)"]
  by (simp add: degenerate_def bounding_rect_def)

lemma NaN_breaks_order:
  assumes "n \<in> set rs" and "rect_x n = NaN" and "2 \<le> length rs"
  shows "\<not> sorted_by_x rs"
proof
  assume s: "sorted_by_x rs"
  from assms(1) obtain i where i: "i < length rs" "rs ! i = n"
    by (auto simp: in_set_conv_nth)
  from assms(3) obtain j where j: "j < length rs" "j \<noteq> i"
    by (cases "i = 0") (auto intro: that [of 0] that [of 1])
  from s have "\<forall>a b. a < b \<longrightarrow> b < length rs \<longrightarrow> js_le (rect_x (rs ! a)) (rect_x (rs ! b))"
    by (simp add: sorted_by_x_def sorted_wrt_iff_nth_less)
  with i j assms(2) have "js_le NaN (rect_x (rs ! j)) \<or> js_le (rect_x (rs ! j)) NaN"
    by (metis linorder_neqE_nat)
  then show False
    by (simp add: js_le_def)
qed




text \<open>
  Claim C2, where it fails. With an \<open>x\<close> that is \<open>NaN\<close> between the annotations of
  \<open>x = 2\<close> and \<open>x = 1\<close>, every comparison with it is \<open>NaN\<close>; the output keeps 2 before
  1. Whatever the order, a list of two or more rectangles with such an \<open>x\<close> is not
  sorted (\<open>NaN_breaks_order\<close>).
\<close>

theorem C2_NaN_counterexample:
  "faces [Some face_two, Some face_nan, Some face_one] =
     Inr [\<lparr>rect_x = js_int 2, rect_y = js_int 0, rect_w = Fin 0, rect_h = Fin 0\<rparr>,
          \<lparr>rect_x = NaN, rect_y = js_int 1, rect_w = NaN, rect_h = Fin 0\<rparr>,
          \<lparr>rect_x = js_int 1, rect_y = js_int 0, rect_w = Fin 0, rect_h = Fin 0\<rparr>]
   \<and> \<not> js_le (js_int 2) (js_int 1)
   \<and> \<not> sorted_by_x
       [\<lparr>rect_x = js_int 2, rect_y = js_int 0, rect_w = Fin 0, rect_h = Fin 0\<rparr>,
        \<lparr>rect_x = NaN, rect_y = js_int 1, rect_w = NaN, rect_h = Fin 0\<rparr>,
        \<lparr>rect_x = js_int 1, rect_y = js_int 0, rect_w = Fin 0, rect_h = Fin 0\<rparr>]"
  by (simp add: face_eval js_eval js_int_0 sorted_by_x_def)

text \<open>
  Claim C2, as the code has it. When no rectangle of the output has an \<open>x\<close> that is
  \<open>NaN\<close>, the output is sorted by \<open>x\<close>, non-decreasing, and the sort is stable: for every
  value \<open>k\<close>, the rectangles of the output with \<open>x === k\<close> are the rectangles of the
  surviving annotations with \<open>x === k\<close>, in the order of the input.
\<close>

theorem C2_sorted_stable:
  assumes "faces as = Inr rs" and "list_all (\<lambda>r. rect_x r \<noteq> NaN) rs"
  shows "sorted_by_x rs
       \<and> (\<forall>k. filter (\<lambda>r. js_eq (rect_x r) k) rs =
               filter (\<lambda>r. js_eq (rect_x r) k) (map bounding_rect (survivors as)))"
proof -
  define bs where "bs = map bounding_rect (survivors as)"
  have rs: "rs = array_sort cmp_x bs"
    using faces_Inr_eq [OF assms(1)] by (simp add: bs_def)
  have n: "\<forall>b \<in> set bs. rect_x b \<noteq> NaN"
    using assms(2) by (simp add: rs set_array_sort list_all_iff)
  have sk: "rs = sort_key x_key bs"
    using n by (simp add: rs array_sort_cmp_x)
  have "sorted (map x_key rs)"
    by (simp add: sk)
  then have "sorted_wrt (\<lambda>a b. x_key a \<le> x_key b) rs"
    by (simp add: sorted_map)
  then have so: "sorted_by_x rs"
    unfolding sorted_by_x_def
    by (rule sorted_wrt_mono_rel [rotated])
       (use n in \<open>auto simp: sk js_le_def x_key_def\<close>)
  have st: "filter (\<lambda>r. js_eq (rect_x r) k) rs = filter (\<lambda>r. js_eq (rect_x r) k) bs" for k
  proof (cases "k = NaN")
    case True
    then show ?thesis by (simp add: js_eq_def)
  next
    case False
    have e: "js_eq (rect_x r) k \<longleftrightarrow> x_key r = js_key k" if "r \<in> set bs" for r
      using n that False by (simp add: js_eq_def x_key_def)
    have "filter (\<lambda>r. js_eq (rect_x r) k) rs = filter (\<lambda>r. x_key r = js_key k) rs"
      by (rule filter_cong) (simp_all add: e sk)
    also have "\<dots> = filter (\<lambda>r. x_key r = js_key k) bs"
      unfolding sk by (rule sort_key_stable)
    also have "\<dots> = filter (\<lambda>r. js_eq (rect_x r) k) bs"
      by (rule filter_cong) (simp_all add: e)
    finally show ?thesis .
  qed
  from so st show ?thesis
    by (simp add: bs_def)
qed

theorem C2_sorted_stable_witness:
  "faces [Some face_C1, Some face_tie, Some face_B, Some face_C2] =
     Inr [\<lparr>rect_x = js_int 0, rect_y = js_int 9, rect_w = js_int 4, rect_h = js_int 3\<rparr>,
          \<lparr>rect_x = js_int 0, rect_y = js_int 0, rect_w = js_int 10, rect_h = js_int 10\<rparr>,
          \<lparr>rect_x = js_int 30, rect_y = js_int 0, rect_w = js_int 30, rect_h = js_int 10\<rparr>]
   \<and> sorted_by_x
       [\<lparr>rect_x = js_int 0, rect_y = js_int 9, rect_w = js_int 4, rect_h = js_int 3\<rparr>,
        \<lparr>rect_x = js_int 0, rect_y = js_int 0, rect_w = js_int 10, rect_h = js_int 10\<rparr>,
        \<lparr>rect_x = js_int 30, rect_y = js_int 0, rect_w = js_int 30, rect_h = js_int 10\<rparr>]
   \<and> filter (\<lambda>r. js_eq (rect_x r) (js_int 0))
        (map bounding_rect (survivors [Some face_C1, Some face_tie, Some face_B, Some face_C2])) =
       [\<lparr>rect_x = js_int 0, rect_y = js_int 9, rect_w = js_int 4, rect_h = js_int 3\<rparr>,
        \<lparr>rect_x = js_int 0, rect_y = js_int 0, rect_w = js_int 10, rect_h = js_int 10\<rparr>]"
proof -
  have h: "faces [Some face_C1, Some face_tie, Some face_B, Some face_C2] =
     Inr [\<lparr>rect_x = js_int 0, rect_y = js_int 9, rect_w = js_int 4, rect_h = js_int 3\<rparr>,
          \<lparr>rect_x = js_int 0, rect_y = js_int 0, rect_w = js_int 10, rect_h = js_int 10\<rparr>,
          \<lparr>rect_x = js_int 30, rect_y = js_int 0, rect_w = js_int 30, rect_h = js_int 10\<rparr>]"
    by (simp add: face_eval js_eval)
  have n: "list_all (\<lambda>r. rect_x r \<noteq> NaN)
       [\<lparr>rect_x = js_int 0, rect_y = js_int 9, rect_w = js_int 4, rect_h = js_int 3\<rparr>,
        \<lparr>rect_x = js_int 0, rect_y = js_int 0, rect_w = js_int 10, rect_h = js_int 10\<rparr>,
        \<lparr>rect_x = js_int 30, rect_y = js_int 0, rect_w = js_int 30, rect_h = js_int 10\<rparr>]"
    by (simp add: js_eval)
  from C2_sorted_stable [OF h n]
  have "sorted_by_x
       [\<lparr>rect_x = js_int 0, rect_y = js_int 9, rect_w = js_int 4, rect_h = js_int 3\<rparr>,
        \<lparr>rect_x = js_int 0, rect_y = js_int 0, rect_w = js_int 10, rect_h = js_int 10\<rparr>,
        \<lparr>rect_x = js_int 30, rect_y = js_int 0, rect_w = js_int 30, rect_h = js_int 10\<rparr>]"
    and "filter (\<lambda>r. js_eq (rect_x r) (js_int 0))
       [\<lparr>rect_x = js_int 0, rect_y = js_int 9, rect_w = js_int 4, rect_h = js_int 3\<rparr>,
        \<lparr>rect_x = js_int 0, rect_y = js_int 0, rect_w = js_int 10, rect_h = js_int 10\<rparr>,
        \<lparr>rect_x = js_int 30, rect_y = js_int 0, rect_w = js_int 30, rect_h = js_int 10\<rparr>] =
       filter (\<lambda>r. js_eq (rect_x r) (js_int 0))
        (map bounding_rect (survivors [Some face_C1, Some face_tie, Some face_B, Some face_C2]))"
    by blast+
  with h show ?thesis
    by (simp add: js_eval)
qed

text \<open>
  Claim C3. An annotation whose vertices are objects, none of which has a numeric \<open>x\<close>,
  or none of which has a numeric \<open>y\<close>, is mapped to \<open>null\<close>, and the output is the one
  of the input without that annotation.
\<close>

theorem C3_degenerate_dropped:
  assumes "None \<notin> set (verts_of f)"
    and "(\<forall>u n. Some u \<in> set (verts_of f) \<longrightarrow> vertex_x u \<noteq> JNum n)
       \<or> (\<forall>u n. Some u \<in> set (verts_of f) \<longrightarrow> vertex_y u \<noteq> JNum n)"
  shows "face_rect (Some f) = Inr None \<and> faces (as @ Some f # bs) = faces (as @ bs)"
proof -
  have d: "degenerate f"
    using assms(2) by (simp add: degenerate_def numeric_xs_empty_iff numeric_ys_empty_iff)
  have r: "face_rect (Some f) = Inr None"
    using assms(1) d by (simp add: face_rect_eq)
  have sh: "agreed_shape (as @ Some f # bs) = agreed_shape (as @ bs)"
    using assms(1) by (simp add: agreed_shape_def)
  have sv: "survivors (as @ Some f # bs) = survivors (as @ bs)"
    using d by (simp add: survivors_def filter_Boolean_append)
  show ?thesis
    using r sh sv by (simp add: faces_eq)
qed

theorem C3_degenerate_dropped_witness:
  "verts_of face_B = [Some \<lparr>vertex_x = JNum (js_int 5), vertex_y = JUndefined\<rparr>]
   \<and> face_rect (Some face_B) = Inr None
   \<and> faces ([Some face_A] @ Some face_B # [Some face_point]) = faces ([Some face_A] @ [Some face_point])
   \<and> faces [Some face_B] = Inr []"
proof -
  have v: "verts_of face_B = [Some \<lparr>vertex_x = JNum (js_int 5), vertex_y = JUndefined\<rparr>]"
    by (simp add: face_B_def verts_of_face_of px_def)
  have h1: "None \<notin> set (verts_of face_B)"
    by (simp add: v)
  have h2: "(\<forall>u n. Some u \<in> set (verts_of face_B) \<longrightarrow> vertex_x u \<noteq> JNum n)
       \<or> (\<forall>u n. Some u \<in> set (verts_of face_B) \<longrightarrow> vertex_y u \<noteq> JNum n)"
    by (simp add: v)
  have e: "faces [] = Inr []"
    by (simp add: faces_def array_sort_def)
  show ?thesis
    using v e C3_degenerate_dropped [OF h1 h2, of "[Some face_A]" "[Some face_point]"]
      C3_degenerate_dropped [OF h1 h2, of "[]" "[]"]
    by simp
qed

text \<open>
  Claim C4, where it fails. A vertex with \<open>x: NaN\<close> has a numeric \<open>x\<close>, and the
  rectangle has \<open>w = NaN\<close>, which is not \<open>>= 0\<close>.
\<close>

theorem C4_NaN_counterexample:
  "numeric_xs (verts_of face_nan) = [NaN]
   \<and> numeric_ys (verts_of face_nan) = [js_int 1]
   \<and> faces [Some face_nan] =
       Inr [\<lparr>rect_x = NaN, rect_y = js_int 1, rect_w = NaN, rect_h = Fin 0\<rparr>]
   \<and> \<not> js_le (Fin 0) NaN"
  by (simp add: face_eval js_eval example_xs example_ys js_int_0)

text \<open>
  Claim C4, as the code has it. Every rectangle the callback returns, and every
  rectangle of the output, has a \<open>w\<close> and an \<open>h\<close> that are \<open>NaN\<close> or \<open>>= 0\<close>; for an
  annotation whose numeric coordinates are all finite, \<open>w >= 0\<close> and \<open>h >= 0\<close>.
\<close>

theorem C4_nonnegative:
  "(face_rect a = Inr (Some r) \<longrightarrow>
      (rect_w r = NaN \<or> js_le (Fin 0) (rect_w r)) \<and> (rect_h r = NaN \<or> js_le (Fin 0) (rect_h r)))
   \<and> (faces as = Inr rs \<longrightarrow>
        (\<forall>r \<in> set rs. (rect_w r = NaN \<or> js_le (Fin 0) (rect_w r))
                      \<and> (rect_h r = NaN \<or> js_le (Fin 0) (rect_h r))))
   \<and> (\<not> degenerate f
        \<and> list_all js_finite (numeric_xs (verts_of f))
        \<and> list_all js_finite (numeric_ys (verts_of f)) \<longrightarrow>
        js_le (Fin 0) (rect_w (bounding_rect f)) \<and> js_le (Fin 0) (rect_h (bounding_rect f)))"
proof -
  have one: "(rect_w r = NaN \<or> js_le (Fin 0) (rect_w r)) \<and> (rect_h r = NaN \<or> js_le (Fin 0) (rect_h r))"
    if "face_rect a = Inr (Some r)"
  proof (cases a)
    case None
    with that show ?thesis by simp
  next
    case (Some f)
    with that have "\<not> degenerate f" and "r = bounding_rect f"
      by (simp_all add: face_rect_eq split: if_splits)
    then show ?thesis using bounding_rect_extent by simp
  qed
  have all: "\<forall>r \<in> set rs. (rect_w r = NaN \<or> js_le (Fin 0) (rect_w r))
                      \<and> (rect_h r = NaN \<or> js_le (Fin 0) (rect_h r))"
    if "faces as = Inr rs"
  proof -
    have "set rs = bounding_rect ` set (survivors as)"
      using faces_Inr_eq [OF that] by (simp add: set_array_sort)
    then show ?thesis
      using bounding_rect_extent by (auto simp: survivors_def)
  qed
  have fin: "js_le (Fin 0) (rect_w (bounding_rect f)) \<and> js_le (Fin 0) (rect_h (bounding_rect f))"
    if "\<not> degenerate f" and "list_all js_finite (numeric_xs (verts_of f))"
      and "list_all js_finite (numeric_ys (verts_of f))"
    using that extent_nonneg_finite [of "numeric_xs (verts_of f)"]
      extent_nonneg_finite [of "numeric_ys (verts_of f)"]
    by (simp add: degenerate_def bounding_rect_def)
  from one all fin show ?thesis by blast
qed

theorem C4_nonnegative_witness:
  "face_rect (Some face_A) =
     Inr (Some \<lparr>rect_x = js_int 10, rect_y = js_int 5, rect_w = js_int 40, rect_h = js_int 35\<rparr>)
   \<and> faces [Some face_point, Some face_A] =
       Inr [\<lparr>rect_x = js_int 7, rect_y = js_int (- 3), rect_w = js_int 0, rect_h = js_int 0\<rparr>,
            \<lparr>rect_x = js_int 10, rect_y = js_int 5, rect_w = js_int 40, rect_h = js_int 35\<rparr>]
   \<and> list_all js_finite (numeric_xs (verts_of face_A))
   \<and> list_all js_finite (numeric_ys (verts_of face_A))
   \<and> js_le (Fin 0) (rect_w (bounding_rect face_A))
   \<and> js_le (Fin 0) (rect_h (bounding_rect face_A))
   \<and> list_all (\<lambda>r. js_le (Fin 0) (rect_w r) \<and> js_le (Fin 0) (rect_h r))
        [\<lparr>rect_x = js_int 7, rect_y = js_int (- 3), rect_w = js_int 0, rect_h = js_int 0\<rparr>,
         \<lparr>rect_x = js_int 10, rect_y = js_int 5, rect_w = js_int 40, rect_h = js_int 35\<rparr>]"
proof -
  have h1: "face_rect (Some face_A) =
     Inr (Some \<lparr>rect_x = js_int 10, rect_y = js_int 5, rect_w = js_int 40, rect_h = js_int 35\<rparr>)"
    by (simp add: face_eval)
  have h2: "faces [Some face_point, Some face_A] =
       Inr [\<lparr>rect_x = js_int 7, rect_y = js_int (- 3), rect_w = js_int 0, rect_h = js_int 0\<rparr>,
            \<lparr>rect_x = js_int 10, rect_y = js_int 5, rect_w = js_int 40, rect_h = js_int 35\<rparr>]"
    by (simp add: face_eval js_eval)
  have h3: "\<not> degenerate face_A"
    by (simp add: example_degenerate)
  have h4: "list_all js_finite (numeric_xs (verts_of face_A))"
    "list_all js_finite (numeric_ys (verts_of face_A))"
    by (simp_all add: example_xs example_ys js_eval)
  from C4_nonnegative [of "Some face_A"
      "\<lparr>rect_x = js_int 10, rect_y = js_int 5, rect_w = js_int 40, rect_h = js_int 35\<rparr>"
      "[Some face_point, Some face_A]"
      "[\<lparr>rect_x = js_int 7, rect_y = js_int (- 3), rect_w = js_int 0, rect_h = js_int 0\<rparr>,
        \<lparr>rect_x = js_int 10, rect_y = js_int 5, rect_w = js_int 40, rect_h = js_int 35\<rparr>]"
      face_A] h3 h4
  have "js_le (Fin 0) (rect_w (bounding_rect face_A)) \<and> js_le (Fin 0) (rect_h (bounding_rect face_A))"
    by blast
  moreover have "list_all (\<lambda>r. js_le (Fin 0) (rect_w r) \<and> js_le (Fin 0) (rect_h r))
        [\<lparr>rect_x = js_int 7, rect_y = js_int (- 3), rect_w = js_int 0, rect_h = js_int 0\<rparr>,
         \<lparr>rect_x = js_int 10, rect_y = js_int 5, rect_w = js_int 40, rect_h = js_int 35\<rparr>]"
    by (simp add: js_le_def js_int_def)
  ultimately show ?thesis
    using h1 h2 h4 by blast
qed

text \<open>
  Claim C5. The empty input gives the empty output; the output is never longer than
  the input, and it is shorter when some annotation is degenerate.
\<close>

theorem C5_length:
  "faces [] = Inr []
   \<and> (faces as = Inr rs \<longrightarrow>
        length rs \<le> length as
        \<and> ((\<exists>f. Some f \<in> set as \<and> degenerate f) \<longrightarrow> length rs < length as))"
proof -
  have e: "faces [] = Inr []"
    by (simp add: faces_def array_sort_def)
  have l: "length rs \<le> length as
        \<and> ((\<exists>f. Some f \<in> set as \<and> degenerate f) \<longrightarrow> length rs < length as)"
    if "faces as = Inr rs"
  proof -
    have len: "length rs = length (survivors as)"
      using faces_Inr_eq [OF that] by (simp add: length_array_sort)
    have a: "length (survivors as) \<le> length (filter_Boolean as)"
      by (simp add: survivors_def)
    have b: "length (filter_Boolean as) \<le> length as"
      by (rule length_filter_Boolean)
    have c: "length (survivors as) < length (filter_Boolean as)"
      if "\<exists>f. Some f \<in> set as \<and> degenerate f"
    proof -
      from that obtain f where "f \<in> set (filter_Boolean as)" and "degenerate f"
        by (auto simp: set_filter_Boolean)
      then show ?thesis
        unfolding survivors_def by (intro length_filter_less [of f]) simp_all
    qed
    from len a b c show ?thesis by fastforce
  qed
  from e l show ?thesis by blast
qed

theorem C5_length_witness:
  "faces [Some face_B, Some face_A, Some face_point] =
     Inr [\<lparr>rect_x = js_int 7, rect_y = js_int (- 3), rect_w = js_int 0, rect_h = js_int 0\<rparr>,
          \<lparr>rect_x = js_int 10, rect_y = js_int 5, rect_w = js_int 40, rect_h = js_int 35\<rparr>]
   \<and> Some face_B \<in> set [Some face_B, Some face_A, Some face_point]
   \<and> degenerate face_B
   \<and> length [\<lparr>rect_x = js_int 7, rect_y = js_int (- 3), rect_w = js_int 0, rect_h = js_int 0\<rparr>,
          \<lparr>rect_x = js_int 10, rect_y = js_int 5, rect_w = js_int 40, rect_h = js_int 35\<rparr>]
       < length [Some face_B, Some face_A, Some face_point]"
proof -
  have h1: "faces [Some face_B, Some face_A, Some face_point] =
     Inr [\<lparr>rect_x = js_int 7, rect_y = js_int (- 3), rect_w = js_int 0, rect_h = js_int 0\<rparr>,
          \<lparr>rect_x = js_int 10, rect_y = js_int 5, rect_w = js_int 40, rect_h = js_int 35\<rparr>]"
    by (simp add: face_eval js_eval)
  have h2: "degenerate face_B"
    by (simp add: example_degenerate)
  have h3: "\<exists>f. Some f \<in> set [Some face_B, Some face_A, Some face_point] \<and> degenerate f"
    using h2 by auto
  from C5_length [of "[Some face_B, Some face_A, Some face_point]"
      "[\<lparr>rect_x = js_int 7, rect_y = js_int (- 3), rect_w = js_int 0, rect_h = js_int 0\<rparr>,
          \<lparr>rect_x = js_int 10, rect_y = js_int 5, rect_w = js_int 40, rect_h = js_int 35\<rparr>]"] h1 h3
  have "length [\<lparr>rect_x = js_int 7, rect_y = js_int (- 3), rect_w = js_int 0, rect_h = js_int 0\<rparr>,
          \<lparr>rect_x = js_int 10, rect_y = js_int 5, rect_w = js_int 40, rect_h = js_int 35\<rparr>]
       < length [Some face_B, Some face_A, Some face_point]"
    by blast
  with h1 h2 show ?thesis by simp
qed

text \<open>
  Claim C6. On an input of the agreed shape the pipeline raises nothing: it returns
  the sorted rectangles of the survivors. Annotations without a polygon, polygons without
  vertices and coordinates that are absent or no numbers are filtered.
\<close>

theorem C6_never_raises:
  assumes "agreed_shape as"
  shows "faces as = Inr (array_sort cmp_x (map bounding_rect (survivors as)))"
  using assms by (simp add: faces_eq)

theorem C6_never_raises_witness:
  "agreed_shape [Some face_bare, Some face_text, Some face_nan, Some face_A,
      Some \<lparr>boundingPoly = Some \<lparr>vertices = None\<rparr>\<rparr>]
   \<and> faces [Some face_bare, Some face_text, Some face_nan, Some face_A,
      Some \<lparr>boundingPoly = Some \<lparr>vertices = None\<rparr>\<rparr>] =
       Inr [\<lparr>rect_x = NaN, rect_y = js_int 1, rect_w = NaN, rect_h = js_int 0\<rparr>,
            \<lparr>rect_x = js_int 10, rect_y = js_int 5, rect_w = js_int 40, rect_h = js_int 35\<rparr>]"
proof -
  have v: "verts_of \<lparr>boundingPoly = Some \<lparr>vertices = None\<rparr>\<rparr> = []"
    by (simp add: verts_of_def)
  have h: "agreed_shape [Some face_bare, Some face_text, Some face_nan, Some face_A,
      Some \<lparr>boundingPoly = Some \<lparr>vertices = None\<rparr>\<rparr>]"
    by (simp add: agreed_shape_def example_shapes v)
  have d: "degenerate \<lparr>boundingPoly = Some \<lparr>vertices = None\<rparr>\<rparr>"
    by (simp add: degenerate_def v numeric_xs_def)
  have e: "array_sort cmp_x (map bounding_rect (survivors
      [Some face_bare, Some face_text, Some face_nan, Some face_A,
       Some \<lparr>boundingPoly = Some \<lparr>vertices = None\<rparr>\<rparr>])) =
       [\<lparr>rect_x = NaN, rect_y = js_int 1, rect_w = NaN, rect_h = js_int 0\<rparr>,
        \<lparr>rect_x = js_int 10, rect_y = js_int 5, rect_w = js_int 40, rect_h = js_int 35\<rparr>]"
    by (simp add: survivors_def example_degenerate example_rects d array_sort_def cmp_x_def js_eval)
  show ?thesis
    using h e C6_never_raises [OF h] by simp
qed

text \<open>
  Claim C7. The pipeline is deterministic. The result of the model is a run on the
  engine \<open>array_sort\<close>, and two runs on the same input and the same engine return the
  same value; where the comparator is consistent, the engine does not matter.
\<close>

theorem C7_deterministic:
  "faces_run array_sort as (faces as)
   \<and> (\<forall>o1 o2. faces_run srt as o1 \<and> faces_run srt as o2 \<longrightarrow> o1 = o2)"
proof -
  have run: "faces_run array_sort as (faces as)"
    by (simp add: faces_run_def faces_def array_sort_contract split: sum.splits)
  have uniq: "o1 = o2" if r1: "faces_run srt as o1" and r2: "faces_run srt as o2" for o1 o2
  proof (cases "map_faces as")
    case (Inl e)
    with r1 r2 show ?thesis by (simp add: faces_run_def)
  next
    case (Inr ms)
    from r1 Inr obtain rs1 where o1: "o1 = Inr rs1"
      by (cases o1) (simp_all add: faces_run_def)
    from r2 Inr obtain rs2 where o2: "o2 = Inr rs2"
      by (cases o2) (simp_all add: faces_run_def)
    show ?thesis
    proof (cases "consistent cmp_x (filter_Boolean ms)")
      case True
      with r1 r2 Inr o1 o2 have "sort_contract cmp_x (filter_Boolean ms) rs1"
        and "sort_contract cmp_x (filter_Boolean ms) rs2"
        by (simp_all add: faces_run_def)
      with True have "rs1 = array_sort cmp_x (filter_Boolean ms)"
        and "rs2 = array_sort cmp_x (filter_Boolean ms)"
        by (simp_all add: sort_contract_unique)
      with o1 o2 show ?thesis by simp
    next
      case False
      with r1 r2 Inr o1 o2 show ?thesis
        by (simp add: faces_run_def)
    qed
  qed
  from run uniq show ?thesis by blast
qed

theorem C7_deterministic_witness:
  "faces_run array_sort [Some face_C1, Some face_tie, Some face_C2]
     (Inr [\<lparr>rect_x = js_int 0, rect_y = js_int 9, rect_w = js_int 4, rect_h = js_int 3\<rparr>,
          \<lparr>rect_x = js_int 0, rect_y = js_int 0, rect_w = js_int 10, rect_h = js_int 10\<rparr>,
          \<lparr>rect_x = js_int 30, rect_y = js_int 0, rect_w = js_int 30, rect_h = js_int 10\<rparr>])
   \<and> faces_run array_sort [Some face_C1, Some face_tie, Some face_C2]
       (faces [Some face_C1, Some face_tie, Some face_C2])
   \<and> faces [Some face_C1, Some face_tie, Some face_C2] =
      Inr [\<lparr>rect_x = js_int 0, rect_y = js_int 9, rect_w = js_int 4, rect_h = js_int 3\<rparr>,
          \<lparr>rect_x = js_int 0, rect_y = js_int 0, rect_w = js_int 10, rect_h = js_int 10\<rparr>,
          \<lparr>rect_x = js_int 30, rect_y = js_int 0, rect_w = js_int 30, rect_h = js_int 10\<rparr>]"
proof -
  have e: "faces [Some face_C1, Some face_tie, Some face_C2] =
      Inr [\<lparr>rect_x = js_int 0, rect_y = js_int 9, rect_w = js_int 4, rect_h = js_int 3\<rparr>,
          \<lparr>rect_x = js_int 0, rect_y = js_int 0, rect_w = js_int 10, rect_h = js_int 10\<rparr>,
          \<lparr>rect_x = js_int 30, rect_y = js_int 0, rect_w = js_int 30, rect_h = js_int 10\<rparr>]"
    by (simp add: face_eval js_eval)
  from C7_deterministic [of "[Some face_C1, Some face_tie, Some face_C2]" array_sort]
  have r: "faces_run array_sort [Some face_C1, Some face_tie, Some face_C2]
       (faces [Some face_C1, Some face_tie, Some face_C2])"
    by blast
  with e show ?thesis by simp
qed

section \<open>The claims on the storage relay\<close>

lemma trim_MENU_OBJECT: "trim MENU_OBJECT = MENU_OBJECT"
  by (simp add: trim_def is_ws_def MENU_OBJECT_def)

lemma trim_LEGACY_BOARDING_OBJECT: "trim LEGACY_BOARDING_OBJECT = LEGACY_BOARDING_OBJECT"
  by (simp add: trim_def is_ws_def LEGACY_BOARDING_OBJECT_def)

lemma objectName_of_falsy:
  "\<not> truthy (body_objectName b) \<Longrightarrow> objectName_of (Some b) = Inr MENU_OBJECT"
  by (simp add: objectName_of_def js_or_def js_trim_def trim_MENU_OBJECT)

lemma objectName_of_absent: "objectName_of None = Inr MENU_OBJECT"
  by (simp add: objectName_of_def js_or_def js_trim_def trim_MENU_OBJECT)

lemma objectName_of_string:
  "s \<noteq> [] \<Longrightarrow> body_objectName b = JStr s \<Longrightarrow> objectName_of (Some b) = Inr (trim s)"
  by (simp add: objectName_of_def js_or_def js_trim_def)

lemma objectName_of_other:
  "truthy (body_objectName b) \<Longrightarrow> \<forall>s. body_objectName b \<noteq> JStr s \<Longrightarrow>
     objectName_of (Some b) = Inl TypeError"
  by (cases "body_objectName b") (simp_all add: objectName_of_def js_or_def js_trim_def)

lemma names_distinct:
  "MENU_OBJECT \<noteq> LEGACY_BOARDING_OBJECT" "BOARDPASS_OBJECT \<noteq> LEGACY_BOARDING_OBJECT"
  by (simp_all add: MENU_OBJECT_def BOARDPASS_OBJECT_def LEGACY_BOARDING_OBJECT_def)

text \<open>
  Claim C8. An upload with a truthy \<open>pdfBase64\<close> whose object name, as the handler
  computes it by default and \<open>trim\<close>, is not in \<open>ALLOWED_OBJECTS\<close> is answered with
  status 400, and the store is as it was.
\<close>

theorem C8_unlisted_name_rejected:
  assumes "truthy (body_pdfBase64 b)"
    and "objectName_of (Some b) = Inr name"
    and "name \<notin> set ALLOWED_OBJECTS"
  shows "uploadPdfDirect decode save_ok st (Some b) =
           (Json 400 (InvalidObjectName ''Invalid objectName'' ALLOWED_OBJECTS), st)"
  using assms by (simp add: uploadPdfDirect_def uploadPdfDirect_try_def)

theorem C8_unlisted_name_rejected_witness:
  "truthy (JStr ''JVBERi0='')
   \<and> objectName_of (Some \<lparr>body_pdfBase64 = JStr ''JVBERi0='', body_objectName = JStr '' evil.pdf ''\<rparr>) = Inr ''evil.pdf''
   \<and> ''evil.pdf'' \<notin> set ALLOWED_OBJECTS
   \<and> uploadPdfDirect (\<lambda>s. []) True Map.empty
        (Some \<lparr>body_pdfBase64 = JStr ''JVBERi0='', body_objectName = JStr '' evil.pdf ''\<rparr>) =
       (Json 400 (InvalidObjectName ''Invalid objectName''
          [''menu_current.pdf'', ''boardpass_current.pdf'', ''boarding_current.pdf'']), Map.empty)"
proof -
  have h1: "truthy (body_pdfBase64 \<lparr>body_pdfBase64 = JStr ''JVBERi0='', body_objectName = JStr '' evil.pdf ''\<rparr>)"
    by simp
  have h2: "objectName_of (Some \<lparr>body_pdfBase64 = JStr ''JVBERi0='', body_objectName = JStr '' evil.pdf ''\<rparr>) = Inr ''evil.pdf''"
    by (simp add: objectName_of_def js_or_def js_trim_def trim_def is_ws_def)
  have h3: "''evil.pdf'' \<notin> set ALLOWED_OBJECTS"
    by (simp add: ALLOWED_OBJECTS_def MENU_OBJECT_def BOARDPASS_OBJECT_def LEGACY_BOARDING_OBJECT_def)
  have a: "ALLOWED_OBJECTS = [''menu_current.pdf'', ''boardpass_current.pdf'', ''boarding_current.pdf'']"
    by (simp add: ALLOWED_OBJECTS_def MENU_OBJECT_def BOARDPASS_OBJECT_def LEGACY_BOARDING_OBJECT_def)
  show ?thesis
    using h1 h2 h3 C8_unlisted_name_rejected [OF h1 h2 h3, of "\<lambda>s. []" True Map.empty]
    by (simp add: a)
qed

text \<open>
  Claim C9. \<open>GET /boarding_current\<close> returns the object \<open>boardpass_current.pdf\<close>. No
  download endpoint depends on what the store holds under \<open>boarding_current.pdf\<close>: an
  upload under that name is stored there and changes the answer of no endpoint.
\<close>

theorem C9_legacy_blob_never_served:
  "(st BOARDPASS_OBJECT = Some blob \<longrightarrow> boarding_current True st = Send 200 pdf_headers blob)
   \<and> (\<forall>route ok. app_get route ok (st(LEGACY_BOARDING_OBJECT \<mapsto> other)) = app_get route ok st)
   \<and> (s \<noteq> [] \<longrightarrow>
        (\<exists>st'. uploadPdfDirect decode True st
                 (Some \<lparr>body_pdfBase64 = JStr s, body_objectName = JStr LEGACY_BOARDING_OBJECT\<rparr>) =
               (Json 200 (UploadOk True LEGACY_BOARDING_OBJECT), st')
             \<and> st' LEGACY_BOARDING_OBJECT = Some (decode s)
             \<and> (\<forall>route ok. app_get route ok st' = app_get route ok st)))"
proof -
  have a: "boarding_current True st = Send 200 pdf_headers blob" if "st BOARDPASS_OBJECT = Some blob"
    using that by (simp add: boarding_current_def download_def)
  have b: "app_get route ok (st(LEGACY_BOARDING_OBJECT \<mapsto> v)) = app_get route ok st" for route ok v
    by (cases route)
      (simp_all add: menu_current_def boardpass_current_def boarding_current_def download_def
        names_distinct)
  have n: "LEGACY_BOARDING_OBJECT \<noteq> []"
    by (simp add: LEGACY_BOARDING_OBJECT_def)
  have c: "uploadPdfDirect decode True st
          (Some \<lparr>body_pdfBase64 = JStr s, body_objectName = JStr LEGACY_BOARDING_OBJECT\<rparr>) =
        (Json 200 (UploadOk True LEGACY_BOARDING_OBJECT), st(LEGACY_BOARDING_OBJECT \<mapsto> decode s))"
    if "s \<noteq> []"
    using that n
    by (simp add: uploadPdfDirect_def uploadPdfDirect_try_def objectName_of_string
        trim_LEGACY_BOARDING_OBJECT ALLOWED_OBJECTS_def Buffer_from_def save_def)
  have d: "\<exists>st'. uploadPdfDirect decode True st
                 (Some \<lparr>body_pdfBase64 = JStr s, body_objectName = JStr LEGACY_BOARDING_OBJECT\<rparr>) =
               (Json 200 (UploadOk True LEGACY_BOARDING_OBJECT), st')
             \<and> st' LEGACY_BOARDING_OBJECT = Some (decode s)
             \<and> (\<forall>route ok. app_get route ok st' = app_get route ok st)"
    if "s \<noteq> []"
    using c [OF that] b by simp
  from a b d show ?thesis by blast
qed

theorem C9_legacy_blob_never_served_witness:
  "[BOARDPASS_OBJECT \<mapsto> [1, 2]] BOARDPASS_OBJECT = Some [1, 2]
   \<and> boarding_current True [BOARDPASS_OBJECT \<mapsto> [1, 2]] = Send 200 pdf_headers [1, 2]
   \<and> ''JVBERi0='' \<noteq> []
   \<and> uploadPdfDirect (\<lambda>s. [9]) True [BOARDPASS_OBJECT \<mapsto> [1, 2]]
        (Some \<lparr>body_pdfBase64 = JStr ''JVBERi0='', body_objectName = JStr LEGACY_BOARDING_OBJECT\<rparr>) =
       (Json 200 (UploadOk True LEGACY_BOARDING_OBJECT),
        [BOARDPASS_OBJECT \<mapsto> [1, 2], LEGACY_BOARDING_OBJECT \<mapsto> [9]])
   \<and> app_get Boarding_current True [BOARDPASS_OBJECT \<mapsto> [1, 2], LEGACY_BOARDING_OBJECT \<mapsto> [9]] =
       Send 200 pdf_headers [1, 2]
   \<and> app_get Boardpass_current True [BOARDPASS_OBJECT \<mapsto> [1, 2], LEGACY_BOARDING_OBJECT \<mapsto> [9]] =
       Send 200 pdf_headers [1, 2]
   \<and> app_get Menu_current True [BOARDPASS_OBJECT \<mapsto> [1, 2], LEGACY_BOARDING_OBJECT \<mapsto> [9]] =
       SendText 500 ''menu not available''"
proof -
  have h1: "[BOARDPASS_OBJECT \<mapsto> [1, 2 :: 8 word]] BOARDPASS_OBJECT = Some [1, 2]"
    by simp
  have h2: "''JVBERi0='' \<noteq> []"
    by simp
  have g1: "app_get Boarding_current True [BOARDPASS_OBJECT \<mapsto> [1, 2]] = Send 200 pdf_headers [1, 2]"
    by (simp add: boarding_current_def download_def)
  have g2: "app_get Boardpass_current True [BOARDPASS_OBJECT \<mapsto> [1, 2]] = Send 200 pdf_headers [1, 2]"
    by (simp add: boardpass_current_def download_def)
  have g3: "app_get Menu_current True [BOARDPASS_OBJECT \<mapsto> [1, 2]] = SendText 500 ''menu not available''"
    by (simp add: menu_current_def download_def MENU_OBJECT_def BOARDPASS_OBJECT_def)
  from C9_legacy_blob_never_served
    [of "[BOARDPASS_OBJECT \<mapsto> [1, 2]]" "[1, 2]" "[9]" "''JVBERi0=''" "\<lambda>s. [9]"] h1 h2
  obtain st' where
    b: "boarding_current True [BOARDPASS_OBJECT \<mapsto> [1, 2]] = Send 200 pdf_headers [1, 2]" and
    u: "uploadPdfDirect (\<lambda>s. [9]) True [BOARDPASS_OBJECT \<mapsto> [1, 2]]
        (Some \<lparr>body_pdfBase64 = JStr ''JVBERi0='', body_objectName = JStr LEGACY_BOARDING_OBJECT\<rparr>) =
       (Json 200 (UploadOk True LEGACY_BOARDING_OBJECT), st')" and
    i: "\<forall>route ok. app_get route ok ([BOARDPASS_OBJECT \<mapsto> [1, 2], LEGACY_BOARDING_OBJECT \<mapsto> [9]])
          = app_get route ok [BOARDPASS_OBJECT \<mapsto> [1, 2]]"
    by blast
  have n: "LEGACY_BOARDING_OBJECT \<noteq> []"
    by (simp add: LEGACY_BOARDING_OBJECT_def)
  have e: "uploadPdfDirect (\<lambda>s. [9]) True [BOARDPASS_OBJECT \<mapsto> [1, 2]]
        (Some \<lparr>body_pdfBase64 = JStr ''JVBERi0='', body_objectName = JStr LEGACY_BOARDING_OBJECT\<rparr>) =
       (Json 200 (UploadOk True LEGACY_BOARDING_OBJECT),
        [BOARDPASS_OBJECT \<mapsto> [1, 2], LEGACY_BOARDING_OBJECT \<mapsto> [9]])"
    using n
    by (simp add: uploadPdfDirect_def uploadPdfDirect_try_def objectName_of_string
        trim_LEGACY_BOARDING_OBJECT ALLOWED_OBJECTS_def Buffer_from_def save_def)
  show ?thesis
    using h1 h2 b e i g1 g2 g3 by simp
qed

text \<open>
  Claim C10. An upload whose \<open>pdfBase64\<close> is a non-empty string and whose
  \<open>objectName\<close> is absent or falsy, on a backend that takes the write, stores the
  decoded bytes under \<open>menu_current.pdf\<close> and answers 200 with that object name.
\<close>

theorem C10_default_menu:
  assumes "body_pdfBase64 b = JStr s" and "s \<noteq> []"
    and "\<not> truthy (body_objectName b)"
  shows "uploadPdfDirect decode True st (Some b) =
           (Json 200 (UploadOk True MENU_OBJECT), st(MENU_OBJECT \<mapsto> decode s))"
  using assms
  by (simp add: uploadPdfDirect_def uploadPdfDirect_try_def objectName_of_falsy
      ALLOWED_OBJECTS_def Buffer_from_def save_def)

theorem C10_default_menu_witness:
  "body_pdfBase64 \<lparr>body_pdfBase64 = JStr ''JVBERi0='', body_objectName = JUndefined\<rparr> = JStr ''JVBERi0=''
   \<and> ''JVBERi0='' \<noteq> []
   \<and> \<not> truthy (body_objectName \<lparr>body_pdfBase64 = JStr ''JVBERi0='', body_objectName = JUndefined\<rparr>)
   \<and> uploadPdfDirect (\<lambda>s. [9]) True [BOARDPASS_OBJECT \<mapsto> [1, 2]]
        (Some \<lparr>body_pdfBase64 = JStr ''JVBERi0='', body_objectName = JUndefined\<rparr>) =
       (Json 200 (UploadOk True ''menu_current.pdf''),
        [BOARDPASS_OBJECT \<mapsto> [1, 2], ''menu_current.pdf'' \<mapsto> [9]])"
proof -
  have h1: "body_pdfBase64 \<lparr>body_pdfBase64 = JStr ''JVBERi0='', body_objectName = JUndefined\<rparr> = JStr ''JVBERi0=''"
    by simp
  have h2: "''JVBERi0='' \<noteq> []"
    by simp
  have h3: "\<not> truthy (body_objectName \<lparr>body_pdfBase64 = JStr ''JVBERi0='', body_objectName = JUndefined\<rparr>)"
    by simp
  show ?thesis
    using h1 h2 h3
      C10_default_menu [OF h1 h2 h3, of "\<lambda>s. [9]" "[BOARDPASS_OBJECT \<mapsto> [1, 2]]"]
    by (simp add: MENU_OBJECT_def)
qed

end
